theory Spec2Isabelle
  imports Complex_Main "HOL-Library.Product_Lexorder" "HOL-Library.Multiset"
begin

section \<open>The disaster-response resource allocator (PBL\_Code.py)\<close>

text \<open>
  The embedding follows \<^verbatim>\<open>PBL_Code.py\<close>: the distance function \<^verbatim>\<open>haversine\<close>, the two
  dataclasses and the greedy loop of \<^verbatim>\<open>allocate_resources\<close>.

  Numbers. Python's unbounded \<^verbatim>\<open>int\<close> is \<^typ>\<open>int\<close>. Python's \<^verbatim>\<open>float\<close> is modelled by
  \<^typ>\<open>real\<close>. In \<open>haversine\<close> and \<open>allocate_resources\<close> every arithmetic operation and every
  call into \<^verbatim>\<open>math\<close> is taken to be exact; a statement about them holds for the exact
  arithmetic only. \<open>allocate_resources_fp\<close> is the same loop with its two floating-point
  computations, the distance of line 78 and the score of line 79, as parameters; a statement
  about it holds for every arithmetic. \<open>score_double\<close> is the score of line 79 in the
  arithmetic of doubles, each operation rounded to the nearest double. Infinities and NaN are
  outside the model, and so are the rounded values of \<^verbatim>\<open>sin\<close>, \<^verbatim>\<open>cos\<close> and \<^verbatim>\<open>atan2\<close>, which
  depend on the platform.

  Errors. \<^verbatim>\<open>math.sqrt\<close> raises \<^verbatim>\<open>ValueError\<close> on a negative argument and float division
  raises \<^verbatim>\<open>ZeroDivisionError\<close> on a zero divisor; both are values of \<open>error\<close>, and a function
  that may raise returns \<open>error + 'a\<close>.

  Objects. \<^verbatim>\<open>Resource\<close> objects are mutated in place through references that the caller's
  list and the candidate tuples share, so resources live in a store: a reference is a
  \<^typ>\<open>nat\<close>, the store maps every reference to the object's current field values, and the
  \<^verbatim>\<open>resources\<close> argument is a list of references. \<^verbatim>\<open>Incident\<close> objects are only read, so the
  \<^verbatim>\<open>incidents\<close> argument is a list of values.

  Inputs. The source validates nothing, and the functions below are defined on every input.
  Where a statement needs the data model of the specification (identifiers that are unique,
  a list that names each object once, capacities and demands that are not negative), it says
  so in its hypotheses.
\<close>

subsection \<open>The math module\<close>

datatype error = ValueError | ZeroDivisionError

definition radians :: "real \<Rightarrow> real" where
  "radians x = x * (pi / 180)"

definition py_sqrt :: "real \<Rightarrow> error + real" where
  "py_sqrt x = (if x < 0 then Inl ValueError else Inr (sqrt x))"

definition atan2 :: "real \<Rightarrow> real \<Rightarrow> real" where
  "atan2 y x =
     (if 0 < x then arctan (y / x)
      else if x < 0 then (if 0 \<le> y then arctan (y / x) + pi else arctan (y / x) - pi)
      else if 0 < y then pi / 2
      else if y < 0 then - (pi / 2)
      else 0)"

definition float_div :: "real \<Rightarrow> real \<Rightarrow> error + real" where
  "float_div x y = (if y = 0 then Inl ZeroDivisionError else Inr (x / y))"

definition round_half_even :: "real \<Rightarrow> int" where
  "round_half_even x =
     (let f = \<lfloor>x\<rfloor>; d = x - of_int f
      in if d < 1 / 2 then f else if 1 / 2 < d then f + 1 else if even f then f else f + 1)"

definition py_round :: "real \<Rightarrow> nat \<Rightarrow> real" where
  "py_round x ndigits = of_int (round_half_even (x * 10 ^ ndigits)) / 10 ^ ndigits"

subsection \<open>Haversine distance (km)\<close>

definition haversine_a :: "real \<Rightarrow> real \<Rightarrow> real \<Rightarrow> real \<Rightarrow> real" where
  "haversine_a lat1 lon1 lat2 lon2 =
     (let phi1 = radians lat1;
          phi2 = radians lat2;
          dphi = radians (lat2 - lat1);
          dlambda = radians (lon2 - lon1)
      in (sin (dphi / 2))\<^sup>2 + cos phi1 * cos phi2 * (sin (dlambda / 2))\<^sup>2)"

definition haversine :: "real \<Rightarrow> real \<Rightarrow> real \<Rightarrow> real \<Rightarrow> error + real" where
  "haversine lat1 lon1 lat2 lon2 =
     (let R = 6371;
          a = haversine_a lat1 lon1 lat2 lon2
      in case py_sqrt a of
           Inl e \<Rightarrow> Inl e
         | Inr sa \<Rightarrow>
             (case py_sqrt (1 - a) of
                Inl e \<Rightarrow> Inl e
              | Inr sb \<Rightarrow> Inr (R * (2 * atan2 sa sb))))"

subsection \<open>Data models\<close>

record incident =
  inc_id :: int
  inc_lat :: real
  inc_lon :: real
  severity :: real
  demand :: int

record resource =
  res_id :: int
  res_lat :: real
  res_lon :: real
  capacity :: int
  res_type :: string

text \<open>One entry of the \<^verbatim>\<open>allocations\<close> list (a dict with these four keys).\<close>

record allocation =
  incident_id :: int
  resource_id :: int
  units_assigned :: int
  distance_km :: real

type_synonym ref = nat
type_synonym store = "ref \<Rightarrow> resource"

text \<open>A candidate is the tuple \<^verbatim>\<open>(score, res, dist)\<close>; \<^verbatim>\<open>res\<close> is a reference. The variable
  \<^verbatim>\<open>dist\<close> is written \<open>dist'\<close>, \<open>dist\<close> being a constant of the library.\<close>

type_synonym candidate = "real \<times> ref \<times> real"

subsection \<open>Greedy allocation\<close>

text \<open>Lines 76 to 80: score every resource that has capacity left, in the order of the list.\<close>

fun score_candidates :: "incident \<Rightarrow> ref list \<Rightarrow> store \<Rightarrow> error + candidate list" where
  "score_candidates inc [] st = Inr []"
| "score_candidates inc (res # rest) st =
     (if 0 < capacity (st res) then
        (case haversine (inc_lat inc) (inc_lon inc) (res_lat (st res)) (res_lon (st res)) of
           Inl e \<Rightarrow> Inl e
         | Inr dist' \<Rightarrow>
             (case float_div (severity inc) (1 + dist') of
                Inl e \<Rightarrow> Inl e
              | Inr score \<Rightarrow>
                  (case score_candidates inc rest st of
                     Inl e \<Rightarrow> Inl e
                   | Inr cands \<Rightarrow> Inr ((score, res, dist') # cands))))
      else score_candidates inc rest st)"

text \<open>
  Lines 84 to 97: walk the sorted candidates. The result is the list of records appended to
  \<^verbatim>\<open>allocations\<close> by this walk, in the order of the appends, and the store after it.
\<close>

fun assign_loop :: "incident \<Rightarrow> int \<Rightarrow> candidate list \<Rightarrow> store \<Rightarrow> allocation list \<times> store" where
  "assign_loop inc remaining [] st = ([], st)"
| "assign_loop inc remaining ((score, res, dist') # rest) st =
     (if remaining \<le> 0 then ([], st)
      else
        let assigned = min remaining (capacity (st res));
            entry = \<lparr>incident_id = inc_id inc,
                     resource_id = res_id (st res),
                     units_assigned = assigned,
                     distance_km = py_round dist' 2\<rparr>;
            st' = st(res := (st res)\<lparr>capacity := capacity (st res) - assigned\<rparr>);
            (records, st'') = assign_loop inc (remaining - assigned) rest st'
        in (entry # records, st''))"

text \<open>Lines 72 to 97: the body of the loop over the sorted incidents.\<close>

definition allocate_incident :: "incident \<Rightarrow> ref list \<Rightarrow> store \<Rightarrow> error + allocation list \<times> store" where
  "allocate_incident inc resources st =
     (case score_candidates inc resources st of
        Inl e \<Rightarrow> Inl e
      | Inr candidates \<Rightarrow>
          Inr (assign_loop inc (demand inc) (sort_key (\<lambda>x. - fst x) candidates) st))"

fun allocate_loop :: "incident list \<Rightarrow> ref list \<Rightarrow> store \<Rightarrow> error + allocation list \<times> store" where
  "allocate_loop [] resources st = Inr ([], st)"
| "allocate_loop (inc # rest) resources st =
     (case allocate_incident inc resources st of
        Inl e \<Rightarrow> Inl e
      | Inr (records, st') \<Rightarrow>
          (case allocate_loop rest resources st' of
             Inl e \<Rightarrow> Inl e
           | Inr (records', st'') \<Rightarrow> Inr (records @ records', st'')))"

text \<open>
  Line 69: \<^verbatim>\<open>sorted\<close> is a stable sort and the key is a tuple, compared lexicographically.
\<close>

definition incidents_sorted :: "incident list \<Rightarrow> incident list" where
  "incidents_sorted incidents = sort_key (\<lambda>x. (- severity x, - demand x)) incidents"

definition allocate_resources :: "incident list \<Rightarrow> ref list \<Rightarrow> store \<Rightarrow> error + allocation list \<times> store" where
  "allocate_resources incidents resources st =
     allocate_loop (incidents_sorted incidents) resources st"

subsection \<open>Notions used by the statements\<close>





definition units_of_incident :: "int \<Rightarrow> allocation list \<Rightarrow> int" where
  "units_of_incident iid records =
     sum_list (map units_assigned (filter (\<lambda>a. incident_id a = iid) records))"

text \<open>The value that \<open>haversine\<close> returns (see \<open>haversine_Inr\<close> below).\<close>

definition haversine_km :: "real \<Rightarrow> real \<Rightarrow> real \<Rightarrow> real \<Rightarrow> real" where
  "haversine_km lat1 lon1 lat2 lon2 =
     6371 * (2 * atan2 (sqrt (haversine_a lat1 lon1 lat2 lon2))
                       (sqrt (1 - haversine_a lat1 lon1 lat2 lon2)))"

text \<open>The tuple that line 80 appends for the resource behind a reference.\<close>

definition candidate_of :: "incident \<Rightarrow> store \<Rightarrow> ref \<Rightarrow> candidate" where
  "candidate_of inc st res =
     (let d = haversine_km (inc_lat inc) (inc_lon inc) (res_lat (st res)) (res_lon (st res))
      in (severity inc / (1 + d), res, d))"

definition ref_of :: "candidate \<Rightarrow> ref" where
  "ref_of c = fst (snd c)"

definition dist_of :: "candidate \<Rightarrow> real" where
  "dist_of c = snd (snd c)"

definition sorted_candidates :: "incident \<Rightarrow> ref list \<Rightarrow> store \<Rightarrow> candidate list" where
  "sorted_candidates inc resources st =
     sort_key (\<lambda>x. - fst x)
       (map (candidate_of inc st) (filter (\<lambda>r. 0 < capacity (st r)) resources))"

text \<open>The record that hands the whole capacity of a candidate to an incident.\<close>

definition full_record :: "incident \<Rightarrow> store \<Rightarrow> candidate \<Rightarrow> allocation" where
  "full_record inc st c =
     \<lparr>incident_id = inc_id inc, resource_id = res_id (st (ref_of c)),
      units_assigned = capacity (st (ref_of c)), distance_km = py_round (dist_of c) 2\<rparr>"

text \<open>The sort key of line 69.\<close>

definition priority_key :: "incident \<Rightarrow> real \<times> int" where
  "priority_key x = (- severity x, - demand x)"

subsection \<open>Inputs of the examples\<close>

text \<open>
  The stores of the examples hold two resources, at the references 2 and 3; every other
  reference holds an empty resource with id 0. The incident of the examples and resource 2 are
  at latitude 0 and longitude 0, resource 3 is at the antipode, at longitude 180.
\<close>

definition example_store :: store where
  "example_store =
     (\<lambda>_. \<lparr>res_id = 0, res_lat = 0, res_lon = 0, capacity = 0, res_type = ''Truck''\<rparr>)
       (2 := \<lparr>res_id = 2, res_lat = 0, res_lon = 0, capacity = 2, res_type = ''Medical''\<rparr>,
        3 := \<lparr>res_id = 3, res_lat = 0, res_lon = 180, capacity = 5, res_type = ''Truck''\<rparr>)"

definition example_incident :: incident where
  "example_incident = \<lparr>inc_id = 7, inc_lat = 0, inc_lon = 0, severity = 10, demand = 3\<rparr>"

definition example_final :: store where
  "example_final =
     (\<lambda>_. \<lparr>res_id = 0, res_lat = 0, res_lon = 0, capacity = 0, res_type = ''Truck''\<rparr>)
       (2 := \<lparr>res_id = 2, res_lat = 0, res_lon = 0, capacity = 0, res_type = ''Medical''\<rparr>,
        3 := \<lparr>res_id = 3, res_lat = 0, res_lon = 180, capacity = 4, res_type = ''Truck''\<rparr>)"



definition tie_first :: incident where
  "tie_first = \<lparr>inc_id = 8, inc_lat = 0, inc_lon = 0, severity = 10, demand = 1\<rparr>"

definition tie_second :: incident where
  "tie_second = \<lparr>inc_id = 9, inc_lat = 0, inc_lon = 0, severity = 10, demand = 1\<rparr>"

definition tie_incident :: incident where
  "tie_incident = example_incident\<lparr>demand := 6\<rparr>"

definition tie_store :: store where
  "tie_store = example_store(3 := (example_store 3)\<lparr>res_lon := 0\<rparr>)"

subsection \<open>The arithmetic of doubles\<close>

text \<open>
  A double is \<open>m * 2 ^ e\<close> for integers \<open>m\<close> and \<open>e\<close> with \<open>\<bar>m\<bar> < 2 ^ 53\<close> and \<open>- 1074 \<le> e\<close>.
  \<open>binade x\<close> is the exponent of the power of two at or below \<open>\<bar>x\<bar>\<close>, not below the least
  normal exponent, and \<open>ulp x\<close> the distance between the doubles around \<open>x\<close>. \<open>double_round\<close>
  is the default rounding of IEEE 754: to the nearest double, a tie to the one with the
  even significand, with gradual underflow. It has no overflow; the sum and the quotient of
  line 79 do not overflow when the severity and the distance are doubles and the distance is
  not negative.
\<close>

definition binade :: "real \<Rightarrow> int" where
  "binade x = max \<lfloor>log 2 \<bar>x\<bar>\<rfloor> (- 1022)"

definition ulp :: "real \<Rightarrow> real" where
  "ulp x = 2 powr (of_int (binade x) - 52)"

definition double_round :: "real \<Rightarrow> real" where
  "double_round x = (if x = 0 then 0 else of_int (round_half_even (x / ulp x)) * ulp x)"

text \<open>
  Line 79 in doubles: \<^verbatim>\<open>1.0 + dist\<close> is rounded, then the quotient is. \<open>exact_score\<close> is the
  same line in exact arithmetic, as in \<open>score_candidates\<close>.
\<close>

definition score_double :: "real \<Rightarrow> real \<Rightarrow> error + real" where
  "score_double sev dist' =
     (let t = double_round (1 + dist')
      in if t = 0 then Inl ZeroDivisionError else Inr (double_round (sev / t)))"

definition exact_score :: "real \<Rightarrow> real \<Rightarrow> error + real" where
  "exact_score sev dist' = float_div sev (1 + dist')"

subsection \<open>Greedy allocation for a given arithmetic\<close>

text \<open>
  Lines 67 to 99 once more, for any distance function \<open>hav\<close> (the call of line 78) and any
  score function \<open>score\<close> (the expression of line 79). An error that either of them raises
  ends the run, as in the source, where the loop has no handler. At \<open>haversine\<close> and
  \<open>exact_score\<close> these are \<open>score_candidates\<close>, \<open>allocate_incident\<close>, \<open>allocate_loop\<close> and
  \<open>allocate_resources\<close>.
\<close>

type_synonym distance_fn = "real \<Rightarrow> real \<Rightarrow> real \<Rightarrow> real \<Rightarrow> error + real"
type_synonym score_fn = "real \<Rightarrow> real \<Rightarrow> error + real"

fun score_candidates_fp ::
  "distance_fn \<Rightarrow> score_fn \<Rightarrow> incident \<Rightarrow> ref list \<Rightarrow> store \<Rightarrow> error + candidate list" where
  "score_candidates_fp hav score inc [] st = Inr []"
| "score_candidates_fp hav score inc (res # rest) st =
     (if 0 < capacity (st res) then
        (case hav (inc_lat inc) (inc_lon inc) (res_lat (st res)) (res_lon (st res)) of
           Inl e \<Rightarrow> Inl e
         | Inr dist' \<Rightarrow>
             (case score (severity inc) dist' of
                Inl e \<Rightarrow> Inl e
              | Inr s \<Rightarrow>
                  (case score_candidates_fp hav score inc rest st of
                     Inl e \<Rightarrow> Inl e
                   | Inr cands \<Rightarrow> Inr ((s, res, dist') # cands))))
      else score_candidates_fp hav score inc rest st)"

definition allocate_incident_fp ::
  "distance_fn \<Rightarrow> score_fn \<Rightarrow> incident \<Rightarrow> ref list \<Rightarrow> store \<Rightarrow> error + allocation list \<times> store" where
  "allocate_incident_fp hav score inc resources st =
     (case score_candidates_fp hav score inc resources st of
        Inl e \<Rightarrow> Inl e
      | Inr candidates \<Rightarrow>
          Inr (assign_loop inc (demand inc) (sort_key (\<lambda>x. - fst x) candidates) st))"

fun allocate_loop_fp ::
  "distance_fn \<Rightarrow> score_fn \<Rightarrow> incident list \<Rightarrow> ref list \<Rightarrow> store \<Rightarrow> error + allocation list \<times> store" where
  "allocate_loop_fp hav score [] resources st = Inr ([], st)"
| "allocate_loop_fp hav score (inc # rest) resources st =
     (case allocate_incident_fp hav score inc resources st of
        Inl e \<Rightarrow> Inl e
      | Inr (records, st') \<Rightarrow>
          (case allocate_loop_fp hav score rest resources st' of
             Inl e \<Rightarrow> Inl e
           | Inr (records', st'') \<Rightarrow> Inr (records @ records', st'')))"

definition allocate_resources_fp ::
  "distance_fn \<Rightarrow> score_fn \<Rightarrow> incident list \<Rightarrow> ref list \<Rightarrow> store \<Rightarrow> error + allocation list \<times> store" where
  "allocate_resources_fp hav score incidents resources st =
     allocate_loop_fp hav score (incidents_sorted incidents) resources st"

text \<open>The records that name an incident id, in the order of the output.\<close>

definition records_of_incident :: "int \<Rightarrow> allocation list \<Rightarrow> allocation list" where
  "records_of_incident iid records = filter (\<lambda>a. incident_id a = iid) records"

subsection \<open>Further inputs of the examples\<close>

text \<open>
  In the store \<open>near_store\<close> resource 3 is at the place of the incident and resource 2 at
  latitude \<open>2 ^ - 70\<close> on the same meridian, \<open>near_km\<close> kilometres away; both have capacity 1.
  \<open>tie_final\<close> is the store after the run on \<open>tie_store\<close>.
\<close>

definition near_incident :: incident where
  "near_incident = example_incident\<lparr>demand := 2\<rparr>"

definition near_store :: store where
  "near_store =
     (\<lambda>_. \<lparr>res_id = 0, res_lat = 0, res_lon = 0, capacity = 0, res_type = ''Truck''\<rparr>)
       (2 := \<lparr>res_id = 2, res_lat = 1 / 2 ^ 70, res_lon = 0, capacity = 1, res_type = ''Medical''\<rparr>,
        3 := \<lparr>res_id = 3, res_lat = 0, res_lon = 0, capacity = 1, res_type = ''Truck''\<rparr>)"

definition near_final :: store where
  "near_final =
     (\<lambda>_. \<lparr>res_id = 0, res_lat = 0, res_lon = 0, capacity = 0, res_type = ''Truck''\<rparr>)
       (2 := \<lparr>res_id = 2, res_lat = 1 / 2 ^ 70, res_lon = 0, capacity = 0, res_type = ''Medical''\<rparr>,
        3 := \<lparr>res_id = 3, res_lat = 0, res_lon = 0, capacity = 0, res_type = ''Truck''\<rparr>)"

definition near_km :: real where
  "near_km = 6371 * radians (1 / 2 ^ 70)"

definition tie_final :: store where
  "tie_final = tie_store(3 := (tie_store 3)\<lparr>capacity := 0\<rparr>, 2 := (tie_store 2)\<lparr>capacity := 1\<rparr>)"

section \<open>The distance function\<close>

lemma sin_half_sq: "(sin (x / 2))\<^sup>2 = (1 - cos x) / (2::real)"
  using cos_double_sin [of "x / 2"] by simp

lemma sin_sq_unit: "0 \<le> (sin (x::real))\<^sup>2 \<and> (sin x)\<^sup>2 \<le> 1"
  using abs_sin_le_one [of x] by (simp add: abs_square_le_1)

lemma half_unit: "- 1 \<le> y \<Longrightarrow> y \<le> 1 \<Longrightarrow> 0 \<le> (1 + y) / 2 \<and> (1 + y) / 2 \<le> (1::real)"
  by simp

text \<open>
  In exact arithmetic the intermediate value \<open>a\<close> lies in the unit interval: it is a convex
  combination of \<open>sin\<^sup>2 (\<Delta>\<phi>/2)\<close> and \<open>(1 + cos (\<phi>1 + \<phi>2)) / 2\<close>. The lemmas of this section
  are about the exact values; they say nothing on the rounded values that a computation in
  doubles produces, where \<open>a\<close> can exceed 1 by one unit in the last place.
\<close>

lemma haversine_a_bounds:
  "0 \<le> haversine_a lat1 lon1 lat2 lon2 \<and> haversine_a lat1 lon1 lat2 lon2 \<le> 1"
proof -
  define p1 where "p1 = radians lat1"
  define p2 where "p2 = radians lat2"
  define u where "u = (sin (radians (lat2 - lat1) / 2))\<^sup>2"
  define v where "v = (sin (radians (lon2 - lon1) / 2))\<^sup>2"
  define c where "c = cos p1 * cos p2"
  have a: "haversine_a lat1 lon1 lat2 lon2 = u + c * v"
    by (simp add: haversine_a_def Let_def u_def v_def c_def p1_def p2_def)
  have d: "radians (lat2 - lat1) = p2 - p1"
    by (simp add: radians_def p1_def p2_def left_diff_distrib)
  have u: "u = (1 - cos (p2 - p1)) / 2"
    unfolding u_def d by (rule sin_half_sq)
  have uc: "u + c = (1 + cos (p1 + p2)) / 2"
    unfolding u c_def by (simp add: cos_diff cos_add field_simps)
  have u01: "0 \<le> u" "u \<le> 1"
    unfolding u_def using sin_sq_unit by blast+
  have v01: "0 \<le> v" "v \<le> 1"
    unfolding v_def using sin_sq_unit by blast+
  have uc01: "0 \<le> u + c" "u + c \<le> 1"
    unfolding uc using half_unit [OF cos_ge_minus_one cos_le_one, of "p1 + p2"] by blast+
  have lo: "0 \<le> u + c * v"
  proof (cases "0 \<le> c")
    case True
    then have "0 \<le> c * v" using v01 by simp
    then show ?thesis using u01 by simp
  next
    case False
    then have "c * 1 \<le> c * v" using v01 by (intro mult_left_mono_neg) simp_all
    then show ?thesis using uc01 by simp
  qed
  have hi: "u + c * v \<le> 1"
  proof (cases "0 \<le> c")
    case True
    then have "c * v \<le> c * 1" using v01 by (intro mult_left_mono) simp_all
    then show ?thesis using uc01 by simp
  next
    case False
    then have "c * v \<le> 0" using v01 by (simp add: mult_le_0_iff)
    then show ?thesis using u01 by simp
  qed
  show ?thesis using a lo hi by simp
qed

lemma haversine_Inr: "haversine lat1 lon1 lat2 lon2 = Inr (haversine_km lat1 lon1 lat2 lon2)"
  using haversine_a_bounds [of lat1 lon1 lat2 lon2]
  by (simp add: haversine_def haversine_km_def py_sqrt_def Let_def)

lemma atan2_nonneg: "0 \<le> y \<Longrightarrow> 0 \<le> x \<Longrightarrow> 0 \<le> atan2 y x"
  by (simp add: atan2_def)

lemma haversine_km_nonneg: "0 \<le> haversine_km lat1 lon1 lat2 lon2"
  using haversine_a_bounds [of lat1 lon1 lat2 lon2]
  by (simp add: haversine_km_def atan2_nonneg)

lemma round_half_even_nonneg: "0 \<le> x \<Longrightarrow> 0 \<le> round_half_even x"
  by (simp add: round_half_even_def Let_def)

lemma py_round_nonneg: "0 \<le> x \<Longrightarrow> 0 \<le> py_round x n"
  by (simp add: py_round_def round_half_even_nonneg)

section \<open>The walk over the candidates\<close>

lemma score_candidates_eq:
  "score_candidates inc resources st =
     Inr (map (candidate_of inc st) (filter (\<lambda>r. 0 < capacity (st r)) resources))"
proof (induction resources)
  case Nil
  show ?case by simp
next
  case (Cons r rs)
  have nz: "1 + haversine_km (inc_lat inc) (inc_lon inc) (res_lat (st r)) (res_lon (st r)) \<noteq> 0"
    using haversine_km_nonneg [of "inc_lat inc" "inc_lon inc" "res_lat (st r)" "res_lon (st r)"]
    by linarith
  show ?case
    using Cons nz by (simp add: haversine_Inr float_div_def candidate_of_def Let_def)
qed

lemma allocate_incident_eq:
  "allocate_incident inc resources st =
     Inr (assign_loop inc (demand inc)
            (sort_key (\<lambda>x. - fst x)
               (map (candidate_of inc st) (filter (\<lambda>r. 0 < capacity (st r)) resources))) st)"
  by (simp add: allocate_incident_def score_candidates_eq)

lemma assign_loop_incident_id:
  "assign_loop inc remaining cs st = (records, st') \<Longrightarrow> a \<in> set records \<Longrightarrow> incident_id a = inc_id inc"
  by (induction inc remaining cs st arbitrary: records st' rule: assign_loop.induct)
     (auto simp: Let_def split: if_splits prod.splits)

lemma assign_loop_length:
  "assign_loop inc remaining cs st = (records, st') \<Longrightarrow> length records \<le> length cs"
  by (induction inc remaining cs st arbitrary: records st' rule: assign_loop.induct)
     (auto simp: Let_def split: if_splits prod.splits)

lemma assign_loop_frame:
  "assign_loop inc remaining cs st = (records, st') \<Longrightarrow>
     res_id (st' r) = res_id (st r) \<and> res_lat (st' r) = res_lat (st r) \<and>
     res_lon (st' r) = res_lon (st r) \<and> res_type (st' r) = res_type (st r)"
  by (induction inc remaining cs st arbitrary: records st' rule: assign_loop.induct)
     (auto simp: Let_def split: if_splits prod.splits)

lemma assign_loop_untouched:
  "assign_loop inc remaining cs st = (records, st') \<Longrightarrow> r \<notin> ref_of ` set cs \<Longrightarrow> st' r = st r"
  by (induction inc remaining cs st arbitrary: records st' rule: assign_loop.induct)
     (auto simp: Let_def ref_of_def split: if_splits prod.splits)




lemma assign_loop_positive:
  "assign_loop inc remaining cs st = (records, st') \<Longrightarrow> distinct (map ref_of cs) \<Longrightarrow>
   (\<forall>c\<in>set cs. 0 < capacity (st (ref_of c))) \<Longrightarrow> a \<in> set records \<Longrightarrow> 0 < units_assigned a"
proof (induction cs arbitrary: remaining st records)
  case Nil
  then show ?case by simp
next
  case (Cons c rest)
  obtain score res d where c: "c = (score, res, d)"
    by (cases c) auto
  show ?case
  proof (cases "remaining \<le> 0")
    case True
    with Cons.prems show ?thesis by (simp add: c)
  next
    case False
    define assigned where "assigned = min remaining (capacity (st res))"
    define st1 where "st1 = st(res := (st res)\<lparr>capacity := capacity (st res) - assigned\<rparr>)"
    obtain recs where run: "assign_loop inc (remaining - assigned) rest st1 = (recs, st')"
      and records: "records = \<lparr>incident_id = inc_id inc, resource_id = res_id (st res),
                       units_assigned = assigned, distance_km = py_round d 2\<rparr> # recs"
      using Cons.prems(1) False
      by (auto simp: c Let_def assigned_def st1_def split: prod.splits)
    have fresh: "res \<notin> ref_of ` set rest"
      using Cons.prems(2) by (simp add: c ref_of_def)
    have pos: "\<forall>c\<in>set rest. 0 < capacity (st1 (ref_of c))"
      using Cons.prems(3) fresh by (auto simp: st1_def)
    have "0 < assigned"
      using False Cons.prems(3) by (simp add: assigned_def c ref_of_def)
    moreover have "a \<in> set recs \<Longrightarrow> 0 < units_assigned a"
      using Cons.IH [OF run _ pos] Cons.prems(2) by simp
    ultimately show ?thesis
      using Cons.prems(4) by (auto simp: records)
  qed
qed


lemma assign_loop_prefix:
  "assign_loop inc remaining cs st = (records, st') \<Longrightarrow>
   map resource_id records = map (\<lambda>c. res_id (st (ref_of c))) (take (length records) cs) \<and>
   map distance_km records = map (\<lambda>c. py_round (dist_of c) 2) (take (length records) cs)"
proof (induction cs arbitrary: remaining st records)
  case Nil
  then show ?case by simp
next
  case (Cons c rest)
  obtain score res d where c: "c = (score, res, d)"
    by (cases c) auto
  show ?case
  proof (cases "remaining \<le> 0")
    case True
    with Cons.prems show ?thesis by (simp add: c)
  next
    case False
    define assigned where "assigned = min remaining (capacity (st res))"
    define st1 where "st1 = st(res := (st res)\<lparr>capacity := capacity (st res) - assigned\<rparr>)"
    obtain recs where run: "assign_loop inc (remaining - assigned) rest st1 = (recs, st')"
      and records: "records = \<lparr>incident_id = inc_id inc, resource_id = res_id (st res),
                       units_assigned = assigned, distance_km = py_round d 2\<rparr> # recs"
      using Cons.prems(1) False
      by (auto simp: c Let_def assigned_def st1_def split: prod.splits)
    have ids: "res_id (st1 x) = res_id (st x)" for x
      by (simp add: st1_def)
    show ?thesis
      using Cons.IH [OF run] by (simp add: records c ref_of_def dist_of_def ids)
  qed
qed




section \<open>One incident\<close>

lemma distinct_map_insort_key:
  "distinct (map g (insort_key f x xs)) \<longleftrightarrow> g x \<notin> g ` set xs \<and> distinct (map g xs)"
  by (induction xs) (auto simp: set_insort_key)

lemma distinct_map_sort_key: "distinct (map g (sort_key f xs)) \<longleftrightarrow> distinct (map g xs)"
  by (induction xs) (auto simp: distinct_map_insort_key)

lemma sum_list_map_insort_key:
  "sum_list (map h (insort_key f x xs)) = (h x :: int) + sum_list (map h xs)"
  by (induction xs) auto

lemma sum_list_map_sort_key: "sum_list (map h (sort_key f xs)) = (sum_list (map h xs) :: int)"
  by (induction xs) (auto simp: sum_list_map_insort_key)

lemma ref_of_candidate_of: "ref_of (candidate_of inc st r) = r"
  by (simp add: ref_of_def candidate_of_def Let_def)

lemma allocate_incident_sorted:
  "allocate_incident inc resources st =
     Inr (assign_loop inc (demand inc) (sorted_candidates inc resources st) st)"
  by (simp add: allocate_incident_eq sorted_candidates_def)

lemma refs_sorted_candidates:
  "ref_of ` set (sorted_candidates inc resources st) = {r \<in> set resources. 0 < capacity (st r)}"
  by (auto simp: sorted_candidates_def ref_of_candidate_of image_iff)

lemma sorted_candidates_positive:
  assumes "c \<in> set (sorted_candidates inc resources st)"
  shows "ref_of c \<in> set resources \<and> 0 < capacity (st (ref_of c))"
proof -
  have "ref_of c \<in> ref_of ` set (sorted_candidates inc resources st)"
    using assms by (rule imageI)
  then show ?thesis
    by (simp add: refs_sorted_candidates)
qed

lemma distinct_sorted_candidates:
  "distinct resources \<Longrightarrow> distinct (map ref_of (sorted_candidates inc resources st))"
  by (simp add: sorted_candidates_def distinct_map_sort_key comp_def ref_of_candidate_of
      distinct_map_filter)

lemma capacity_sorted_candidates:
  "sum_list (map (\<lambda>c. capacity (st (ref_of c))) (sorted_candidates inc resources st)) =
     sum_list (map (\<lambda>r. capacity (st r)) (filter (\<lambda>r. 0 < capacity (st r)) resources))"
  by (simp add: sorted_candidates_def sum_list_map_sort_key comp_def ref_of_candidate_of)


lemma allocate_incident_cases:
  obtains records st' where "allocate_incident inc resources st = Inr (records, st')"
    and "assign_loop inc (demand inc) (sorted_candidates inc resources st) st = (records, st')"
  by (cases "assign_loop inc (demand inc) (sorted_candidates inc resources st) st")
     (simp add: allocate_incident_sorted)

lemma allocate_incident_loop:
  "allocate_incident inc resources st = Inr (records, st') \<Longrightarrow>
   assign_loop inc (demand inc) (sorted_candidates inc resources st) st = (records, st')"
  by (simp add: allocate_incident_sorted)

lemma allocate_incident_frame:
  "allocate_incident inc resources st = Inr (records, st') \<Longrightarrow>
     res_id (st' r) = res_id (st r) \<and> res_lat (st' r) = res_lat (st r) \<and>
     res_lon (st' r) = res_lon (st r) \<and> res_type (st' r) = res_type (st r)"
  by (rule assign_loop_frame [OF allocate_incident_loop])

lemma allocate_incident_untouched:
  "allocate_incident inc resources st = Inr (records, st') \<Longrightarrow>
   r \<notin> set resources \<or> capacity (st r) \<le> 0 \<Longrightarrow> st' r = st r"
  by (rule assign_loop_untouched [OF allocate_incident_loop])
     (auto simp: refs_sorted_candidates)


lemma allocate_incident_incident_id:
  "allocate_incident inc resources st = Inr (records, st') \<Longrightarrow> a \<in> set records \<Longrightarrow>
   incident_id a = inc_id inc"
  by (rule assign_loop_incident_id [OF allocate_incident_loop])


lemma allocate_incident_positive:
  assumes "allocate_incident inc resources st = Inr (records, st')"
    and "distinct resources" and "a \<in> set records"
  shows "0 < units_assigned a"
proof (rule assign_loop_positive [OF allocate_incident_loop [OF assms(1)] _ _ assms(3)])
  show "distinct (map ref_of (sorted_candidates inc resources st))"
    using assms(2) by (rule distinct_sorted_candidates)
  show "\<forall>c\<in>set (sorted_candidates inc resources st). 0 < capacity (st (ref_of c))"
    using sorted_candidates_positive [of _ inc resources st] by simp
qed


lemma allocate_incident_resource_id:
  assumes "allocate_incident inc resources st = Inr (records, st')" and "a \<in> set records"
  shows "\<exists>r\<in>set resources. 0 < capacity (st r) \<and> resource_id a = res_id (st r)"
proof -
  let ?cs = "sorted_candidates inc resources st"
  have "map resource_id records = map (\<lambda>c. res_id (st (ref_of c))) (take (length records) ?cs)"
    using assign_loop_prefix [OF allocate_incident_loop [OF assms(1)]] by simp
  then have "resource_id a \<in> set (map (\<lambda>c. res_id (st (ref_of c))) (take (length records) ?cs))"
    using assms(2) by (metis image_eqI set_map)
  then obtain c where "c \<in> set ?cs" "resource_id a = res_id (st (ref_of c))"
    by (auto dest: in_set_takeD)
  then show ?thesis
    using sorted_candidates_positive [of c inc resources st] by blast
qed

section \<open>The loop over the incidents\<close>

lemma allocate_loop_returns: "\<exists>records st'. allocate_loop incs resources st = Inr (records, st')"
proof (induction incs arbitrary: st)
  case Nil
  show ?case by simp
next
  case (Cons inc rest)
  obtain recs1 st1 where 1: "allocate_incident inc resources st = Inr (recs1, st1)"
    by (rule allocate_incident_cases)
  obtain recs2 st2 where 2: "allocate_loop rest resources st1 = Inr (recs2, st2)"
    using Cons.IH by blast
  show ?case by (simp add: 1 2)
qed

lemma allocate_loop_Cons:
  assumes "allocate_loop (inc # rest) resources st = Inr (records, st')"
  obtains recs1 st1 recs2 where "allocate_incident inc resources st = Inr (recs1, st1)"
    and "allocate_loop rest resources st1 = Inr (recs2, st')" and "records = recs1 @ recs2"
  using assms by (auto split: sum.splits prod.splits)


lemma allocate_loop_frame:
  "allocate_loop incs resources st = Inr (records, st') \<Longrightarrow>
     res_id (st' r) = res_id (st r) \<and> res_lat (st' r) = res_lat (st r) \<and>
     res_lon (st' r) = res_lon (st r) \<and> res_type (st' r) = res_type (st r)"
proof (induction incs arbitrary: st records)
  case Nil
  then show ?case by simp
next
  case (Cons inc rest)
  from Cons.prems obtain recs1 st1 recs2 where 1: "allocate_incident inc resources st = Inr (recs1, st1)"
    and 2: "allocate_loop rest resources st1 = Inr (recs2, st')"
    by (rule allocate_loop_Cons)
  show ?case
    using Cons.IH [OF 2] allocate_incident_frame [OF 1, of r] by simp
qed

lemma allocate_loop_untouched:
  "allocate_loop incs resources st = Inr (records, st') \<Longrightarrow>
   r \<notin> set resources \<or> capacity (st r) \<le> 0 \<Longrightarrow> st' r = st r"
proof (induction incs arbitrary: st records)
  case Nil
  then show ?case by simp
next
  case (Cons inc rest)
  from Cons.prems(1) obtain recs1 st1 recs2 where 1: "allocate_incident inc resources st = Inr (recs1, st1)"
    and 2: "allocate_loop rest resources st1 = Inr (recs2, st')"
    by (rule allocate_loop_Cons)
  have 3: "st1 r = st r"
    using allocate_incident_untouched [OF 1 Cons.prems(2)] .
  show ?case
    using Cons.IH [OF 2] Cons.prems(2) 3 by simp
qed






lemma allocate_loop_positive:
  "allocate_loop incs resources st = Inr (records, st') \<Longrightarrow> distinct resources \<Longrightarrow>
   a \<in> set records \<Longrightarrow> 0 < units_assigned a"
proof (induction incs arbitrary: st records)
  case Nil
  then show ?case by simp
next
  case (Cons inc rest)
  from Cons.prems(1) obtain recs1 st1 recs2 where 1: "allocate_incident inc resources st = Inr (recs1, st1)"
    and 2: "allocate_loop rest resources st1 = Inr (recs2, st')" and 3: "records = recs1 @ recs2"
    by (rule allocate_loop_Cons)
  show ?case
    using Cons.IH [OF 2 Cons.prems(2)] allocate_incident_positive [OF 1 Cons.prems(2)]
      Cons.prems(3) 3 by auto
qed

lemma allocate_loop_excluded:
  "allocate_loop incs resources st = Inr (records, st') \<Longrightarrow> capacity (st r) \<le> 0 \<Longrightarrow>
   (\<forall>r'\<in>set resources. res_id (st r') = res_id (st r) \<longrightarrow> r' = r) \<Longrightarrow>
   a \<in> set records \<Longrightarrow> resource_id a \<noteq> res_id (st r)"
proof (induction incs arbitrary: st records)
  case Nil
  then show ?case by simp
next
  case (Cons inc rest)
  from Cons.prems(1) obtain recs1 st1 recs2 where 1: "allocate_incident inc resources st = Inr (recs1, st1)"
    and 2: "allocate_loop rest resources st1 = Inr (recs2, st')" and 3: "records = recs1 @ recs2"
    by (rule allocate_loop_Cons)
  have ids: "res_id (st1 x) = res_id (st x)" for x
    using allocate_incident_frame [OF 1, of x] by simp
  have same: "st1 r = st r"
    using allocate_incident_untouched [OF 1] Cons.prems(2) by simp
  have inj: "\<forall>r'\<in>set resources. res_id (st1 r') = res_id (st1 r) \<longrightarrow> r' = r"
    using Cons.prems(3) by (simp add: ids)
  have head: "a \<in> set recs1 \<Longrightarrow> resource_id a \<noteq> res_id (st r)"
    using allocate_incident_resource_id [OF 1, of a] Cons.prems(2,3) by fastforce
  have tail: "a \<in> set recs2 \<Longrightarrow> resource_id a \<noteq> res_id (st r)"
    using Cons.IH [OF 2 _ inj] Cons.prems(2) same by simp
  show ?case
    using head tail Cons.prems(4) 3 by auto
qed






section \<open>An example run\<close>

lemma haversine_km_same: "haversine_km 0 0 0 0 = 0"
  by (simp add: haversine_km_def haversine_a_def radians_def atan2_def)

lemma haversine_km_antipode: "haversine_km 0 0 0 180 = 6371 * pi"
  by (simp add: haversine_km_def haversine_a_def radians_def atan2_def)

lemma far_score: "s / (1 + 6371 * pi) \<le> s" if "0 \<le> s" for s :: real
proof -
  have pos: "0 < 6371 * pi"
    using pi_gt_zero by simp
  then have "1 \<le> 1 + 6371 * pi" and "0 < 1 + 6371 * pi"
    by linarith+
  then have "s / (1 + 6371 * pi) \<le> s / 1"
    using that by (intro divide_left_mono) simp_all
  then show ?thesis by simp
qed

lemma example_candidates:
  "sorted_candidates example_incident [2, 3] example_store =
     [(10, 2, 0), (10 / (1 + 6371 * pi), 3, 6371 * pi)]"
  using far_score [of 10]
  by (simp add: sorted_candidates_def example_store_def example_incident_def candidate_of_def
      haversine_km_same haversine_km_antipode Let_def)

lemma py_round_zero: "py_round 0 n = 0"
  by (simp add: py_round_def round_half_even_def)

lemma example_run:
  "allocate_resources [example_incident] [2, 3] example_store =
     Inr ([\<lparr>incident_id = 7, resource_id = 2, units_assigned = 2, distance_km = 0\<rparr>,
           \<lparr>incident_id = 7, resource_id = 3, units_assigned = 1,
              distance_km = py_round (6371 * pi) 2\<rparr>],
          example_final)"
proof -
  have "assign_loop example_incident 3 [(10, 2, 0), (10 / (1 + 6371 * pi), 3, 6371 * pi)] example_store =
     ([\<lparr>incident_id = 7, resource_id = 2, units_assigned = 2, distance_km = 0\<rparr>,
       \<lparr>incident_id = 7, resource_id = 3, units_assigned = 1,
          distance_km = py_round (6371 * pi) 2\<rparr>],
      example_final)"
    by (simp add: example_store_def example_incident_def example_final_def py_round_zero
        fun_eq_iff)
  moreover have "demand example_incident = 3"
    by (simp add: example_incident_def)
  ultimately show ?thesis
    by (simp add: allocate_resources_def incidents_sorted_def allocate_incident_sorted
        example_candidates)
qed

section \<open>Capacity conservation\<close>

lemma sorted_candidates_eq:
  "c \<in> set (sorted_candidates inc resources st) \<Longrightarrow> c = candidate_of inc st (ref_of c)"
  by (auto simp: sorted_candidates_def ref_of_candidate_of)

lemma dist_of_candidate_of: "0 \<le> dist_of (candidate_of inc st r)"
  by (simp add: candidate_of_def dist_of_def Let_def haversine_km_nonneg)

lemma sorted_candidates_dist: "c \<in> set (sorted_candidates inc resources st) \<Longrightarrow> 0 \<le> dist_of c"
  using sorted_candidates_eq [of c inc resources st] dist_of_candidate_of [of inc st "ref_of c"]
  by simp

lemma allocate_incident_distance:
  assumes "allocate_incident inc resources st = Inr (records, st')" and "a \<in> set records"
  shows "0 \<le> distance_km a"
proof -
  let ?cs = "sorted_candidates inc resources st"
  have "map distance_km records = map (\<lambda>c. py_round (dist_of c) 2) (take (length records) ?cs)"
    using assign_loop_prefix [OF allocate_incident_loop [OF assms(1)]] by simp
  then have "distance_km a \<in> set (map (\<lambda>c. py_round (dist_of c) 2) (take (length records) ?cs))"
    using assms(2) by (metis image_eqI set_map)
  then obtain c where "c \<in> set ?cs" "distance_km a = py_round (dist_of c) 2"
    by (auto dest: in_set_takeD)
  then show ?thesis
    using sorted_candidates_dist [of c inc resources st] by (simp add: py_round_nonneg)
qed

lemma allocate_loop_distance:
  "allocate_loop incs resources st = Inr (records, st') \<Longrightarrow> a \<in> set records \<Longrightarrow>
   0 \<le> distance_km a"
proof (induction incs arbitrary: st records)
  case Nil
  then show ?case by simp
next
  case (Cons inc rest)
  from Cons.prems(1) obtain recs1 st1 recs2 where 1: "allocate_incident inc resources st = Inr (recs1, st1)"
    and 2: "allocate_loop rest resources st1 = Inr (recs2, st')" and 3: "records = recs1 @ recs2"
    by (rule allocate_loop_Cons)
  show ?case
    using Cons.IH [OF 2] allocate_incident_distance [OF 1] Cons.prems(2) 3 by auto
qed

lemma allocate_resources_cases:
  obtains records st' where "allocate_resources incidents resources st = Inr (records, st')"
    and "allocate_loop (incidents_sorted incidents) resources st = Inr (records, st')"
  using allocate_loop_returns [of "incidents_sorted incidents" resources st]
  by (auto simp: allocate_resources_def)

lemma inj_on_ids:
  "inj_on (\<lambda>r. res_id (st r)) (set resources) \<Longrightarrow> res \<in> set resources \<Longrightarrow>
   \<forall>r'\<in>set resources. res_id (st r') = res_id (st res) \<longrightarrow> r' = res"
  by (auto dest: inj_onD)



section \<open>Records and frame\<close>

text \<open>
  C6. Record positivity. When the resources list names every object at most once, the run
  returns and every record of its output has \<open>units_assigned > 0\<close> and \<open>distance_km \<ge> 0\<close>,
  whatever the demands and the capacities are.
\<close>

theorem record_positivity:
  assumes "distinct resources"
  shows "\<exists>records st'. allocate_resources incidents resources st = Inr (records, st') \<and>
           (\<forall>a\<in>set records. 0 < units_assigned a \<and> 0 \<le> distance_km a)"
proof -
  obtain records st' where run: "allocate_resources incidents resources st = Inr (records, st')"
    and loop: "allocate_loop (incidents_sorted incidents) resources st = Inr (records, st')"
    by (rule allocate_resources_cases)
  have "0 < units_assigned a \<and> 0 \<le> distance_km a" if "a \<in> set records" for a
    using allocate_loop_positive [OF loop assms that] allocate_loop_distance [OF loop that]
    by simp
  then show ?thesis
    using run by blast
qed

theorem record_positivity_witness:
  "distinct [2, 3 :: nat] \<and>
   (\<exists>a st'. allocate_resources [example_incident] [2, 3] example_store =
       Inr ([a, \<lparr>incident_id = 7, resource_id = 3, units_assigned = 1,
                 distance_km = py_round (6371 * pi) 2\<rparr>], st') \<and>
      0 < units_assigned a \<and> 0 \<le> distance_km a \<and> 0 \<le> py_round (6371 * pi) 2)"
proof -
  have h: "distinct [2, 3 :: nat]"
    by simp
  show ?thesis
    using record_positivity [OF h, of "[example_incident]" example_store] h
    by (simp add: example_run)
qed

text \<open>
  Why the statement on positive units asks for a list without repetition: when the list names
  the same object twice, the object is scored twice while it still has capacity, the first
  visit of the walk empties it, and the second visit appends a record of zero units.
\<close>

lemma repeated_resource:
  "allocate_resources [example_incident] [2, 2] example_store =
     Inr ([\<lparr>incident_id = 7, resource_id = 2, units_assigned = 2, distance_km = 0\<rparr>,
           \<lparr>incident_id = 7, resource_id = 2, units_assigned = 0, distance_km = 0\<rparr>],
          example_store(2 := (example_store 2)\<lparr>capacity := 0\<rparr>))"
proof -
  have c: "sorted_candidates example_incident [2, 2] example_store = [(10, 2, 0), (10, 2, 0)]"
    by (simp add: sorted_candidates_def example_store_def example_incident_def candidate_of_def
        haversine_km_same Let_def)
  have "assign_loop example_incident 3 [(10, 2, 0), (10, 2, 0)] example_store =
     ([\<lparr>incident_id = 7, resource_id = 2, units_assigned = 2, distance_km = 0\<rparr>,
       \<lparr>incident_id = 7, resource_id = 2, units_assigned = 0, distance_km = 0\<rparr>],
      example_store(2 := (example_store 2)\<lparr>capacity := 0\<rparr>))"
    by (simp add: example_store_def example_incident_def py_round_zero fun_eq_iff)
  moreover have "demand example_incident = 3"
    by (simp add: example_incident_def)
  ultimately show ?thesis
    by (simp add: allocate_resources_def incidents_sorted_def allocate_incident_sorted c)
qed

text \<open>
  C8. Frame effect. The run returns, and in the final store every resource object has the id,
  latitude, longitude and type it had before: only \<open>capacity\<close> is written. An object that the
  resources list does not name is unchanged altogether. The incidents and the two lists are
  values of the embedding, the source having no assignment to any of them.
\<close>

theorem frame_effect:
  "\<exists>records st'. allocate_resources incidents resources st = Inr (records, st') \<and>
     (\<forall>r. res_id (st' r) = res_id (st r) \<and> res_lat (st' r) = res_lat (st r) \<and>
          res_lon (st' r) = res_lon (st r) \<and> res_type (st' r) = res_type (st r) \<and>
          st' r = (st r)\<lparr>capacity := capacity (st' r)\<rparr>) \<and>
     (\<forall>r. r \<notin> set resources \<longrightarrow> st' r = st r)"
proof -
  obtain records st' where run: "allocate_resources incidents resources st = Inr (records, st')"
    and loop: "allocate_loop (incidents_sorted incidents) resources st = Inr (records, st')"
    by (rule allocate_resources_cases)
  have fields: "res_id (st' r) = res_id (st r) \<and> res_lat (st' r) = res_lat (st r) \<and>
          res_lon (st' r) = res_lon (st r) \<and> res_type (st' r) = res_type (st r)" for r
    by (rule allocate_loop_frame [OF loop])
  have only: "st' r = (st r)\<lparr>capacity := capacity (st' r)\<rparr>" for r
    using fields [of r] by (cases "st' r"; cases "st r") simp
  have "st' r = st r" if "r \<notin> set resources" for r
    using allocate_loop_untouched [OF loop] that by blast
  then show ?thesis
    using run fields only by blast
qed

theorem frame_effect_witness:
  "(5::nat) \<notin> set [2, 3] \<and>
   (\<exists>records st'. allocate_resources [example_incident] [2, 3] example_store = Inr (records, st') \<and>
      st' 5 = example_store 5 \<and> res_type (st' 2) = res_type (example_store 2) \<and>
      res_id (st' 3) = res_id (example_store 3) \<and> capacity (st' 3) = 4 \<and>
      capacity (example_store 3) = 5)"
proof -
  have h: "(5::nat) \<notin> set [2, 3]"
    by simp
  obtain records st' where
    run: "allocate_resources [example_incident] [2, 3] example_store = Inr (records, st')"
    and fields: "\<forall>r. res_id (st' r) = res_id (example_store r) \<and>
          res_lat (st' r) = res_lat (example_store r) \<and>
          res_lon (st' r) = res_lon (example_store r) \<and>
          res_type (st' r) = res_type (example_store r) \<and>
          st' r = (example_store r)\<lparr>capacity := capacity (st' r)\<rparr>"
    and out: "\<forall>r. r \<notin> set [2, 3] \<longrightarrow> st' r = example_store r"
    using frame_effect [of "[example_incident]" "[2, 3]" example_store] by blast
  have "st' = example_final"
    using run by (simp add: example_run)
  then have caps: "capacity (st' 3) = 4" "capacity (example_store 3) = 5"
    by (simp_all add: example_final_def example_store_def)
  show ?thesis
    using h run fields out caps by blast
qed

section \<open>Zero-capacity exclusion\<close>

lemma example_candidates_zero:
  "sorted_candidates example_incident [4, 2, 3] example_store =
     sorted_candidates example_incident [2, 3] example_store"
  by (simp add: sorted_candidates_def example_store_def)

lemma example_run_zero:
  "allocate_resources [example_incident] [4, 2, 3] example_store =
     allocate_resources [example_incident] [2, 3] example_store"
  by (simp add: allocate_resources_def incidents_sorted_def allocate_incident_sorted
      example_candidates_zero)

text \<open>
  C5. Zero-capacity exclusion. Let the resources that are different objects have different
  ids, and let a resource of the list have capacity zero or less in the store in which an
  incident is processed. Then the resource is not among the scored candidates, no record of
  that incident names it and its object is left as it was; and when the store is the initial
  one, no record of the whole run names it.
\<close>

theorem zero_capacity_exclusion:
  assumes "inj_on (\<lambda>r. res_id (st r)) (set resources)" and "res \<in> set resources"
    and "capacity (st res) \<le> 0"
  shows "(\<exists>cands. score_candidates inc resources st = Inr cands \<and> res \<notin> ref_of ` set cands) \<and>
         (\<exists>records st'. allocate_incident inc resources st = Inr (records, st') \<and>
            (\<forall>a\<in>set records. resource_id a \<noteq> res_id (st res)) \<and> st' res = st res) \<and>
         (\<exists>records st'. allocate_resources incidents resources st = Inr (records, st') \<and>
            (\<forall>a\<in>set records. resource_id a \<noteq> res_id (st res)) \<and> st' res = st res)"
proof (intro conjI)
  note inj = inj_on_ids [OF assms(1,2)]
  show "\<exists>cands. score_candidates inc resources st = Inr cands \<and> res \<notin> ref_of ` set cands"
    using assms(3) by (auto simp: score_candidates_eq ref_of_candidate_of)
  obtain recs1 st1 where 1: "allocate_incident inc resources st = Inr (recs1, st1)"
    by (rule allocate_incident_cases)
  have "resource_id a \<noteq> res_id (st res)" if "a \<in> set recs1" for a
    using allocate_incident_resource_id [OF 1 that] inj assms(3) by fastforce
  moreover have "st1 res = st res"
    using allocate_incident_untouched [OF 1] assms(3) by blast
  ultimately show "\<exists>records st'. allocate_incident inc resources st = Inr (records, st') \<and>
            (\<forall>a\<in>set records. resource_id a \<noteq> res_id (st res)) \<and> st' res = st res"
    using 1 by blast
  obtain records st' where run: "allocate_resources incidents resources st = Inr (records, st')"
    and loop: "allocate_loop (incidents_sorted incidents) resources st = Inr (records, st')"
    by (rule allocate_resources_cases)
  have "resource_id a \<noteq> res_id (st res)" if "a \<in> set records" for a
    using allocate_loop_excluded [OF loop assms(3) inj that] .
  moreover have "st' res = st res"
    using allocate_loop_untouched [OF loop] assms(3) by blast
  ultimately show "\<exists>records st'. allocate_resources incidents resources st = Inr (records, st') \<and>
            (\<forall>a\<in>set records. resource_id a \<noteq> res_id (st res)) \<and> st' res = st res"
    using run by blast
qed

theorem zero_capacity_exclusion_witness:
  "inj_on (\<lambda>r. res_id (example_store r)) (set [4, 2, 3]) \<and> 4 \<in> set [4, 2, 3 :: nat] \<and>
   capacity (example_store 4) \<le> 0 \<and>
   res_lat (example_store 4) = inc_lat example_incident \<and>
   res_lon (example_store 4) = inc_lon example_incident \<and>
   (\<exists>a b st'. allocate_resources [example_incident] [4, 2, 3] example_store = Inr ([a, b], st') \<and>
      resource_id a \<noteq> res_id (example_store 4) \<and> resource_id b \<noteq> res_id (example_store 4))"
proof -
  have h1: "inj_on (\<lambda>r. res_id (example_store r)) (set [4, 2, 3])"
    by (simp add: example_store_def)
  have h2: "4 \<in> set [4, 2, 3 :: nat]"
    by simp
  have h3: "capacity (example_store 4) \<le> 0"
    by (simp add: example_store_def)
  have h4: "res_lat (example_store 4) = inc_lat example_incident"
    "res_lon (example_store 4) = inc_lon example_incident"
    by (simp_all add: example_store_def example_incident_def)
  show ?thesis
    using zero_capacity_exclusion [OF h1 h2 h3, of example_incident "[example_incident]"]
      h1 h2 h3 h4
    by (simp add: example_run_zero example_run)
qed

section \<open>Unmet demand\<close>

lemma assign_loop_exhausted:
  "distinct (map ref_of cs) \<Longrightarrow> (\<forall>c\<in>set cs. 0 < capacity (st (ref_of c))) \<Longrightarrow>
   sum_list (map (\<lambda>c. capacity (st (ref_of c))) cs) < remaining \<Longrightarrow>
   fst (assign_loop inc remaining cs st) = map (full_record inc st) cs"
proof (induction cs arbitrary: remaining st)
  case Nil
  show ?case by simp
next
  case (Cons c rest)
  obtain score res d where c: "c = (score, res, d)"
    by (cases c) auto
  have tot: "0 \<le> sum_list (map (\<lambda>c. capacity (st (ref_of c))) rest)"
    using Cons.prems(2) by (intro sum_list_nonneg) (auto simp: less_imp_le)
  have cap: "0 < capacity (st res)"
    using Cons.prems(2) by (simp add: c ref_of_def)
  have less: "capacity (st res) + sum_list (map (\<lambda>c. capacity (st (ref_of c))) rest) < remaining"
    using Cons.prems(3) by (simp add: c ref_of_def)
  have pos: "\<not> remaining \<le> 0" and assigned: "min remaining (capacity (st res)) = capacity (st res)"
    using tot cap less by simp_all
  define st1 where "st1 = st(res := (st res)\<lparr>capacity := capacity (st res) - capacity (st res)\<rparr>)"
  have fresh: "res \<notin> ref_of ` set rest"
    using Cons.prems(1) by (simp add: c ref_of_def)
  have same: "x \<in> set rest \<Longrightarrow> st1 (ref_of x) = st (ref_of x)" for x
    using fresh by (auto simp: st1_def)
  have caps: "map (\<lambda>c. capacity (st1 (ref_of c))) rest = map (\<lambda>c. capacity (st (ref_of c))) rest"
    using same by simp
  have recs: "map (full_record inc st1) rest = map (full_record inc st) rest"
    using same by (simp add: full_record_def)
  have ih: "fst (assign_loop inc (remaining - capacity (st res)) rest st1) = map (full_record inc st) rest"
    using Cons.IH [of st1 "remaining - capacity (st res)"] Cons.prems(1,2) less same
    by (simp add: caps recs)
  have step: "fst (assign_loop inc remaining (c # rest) st) =
      full_record inc st c # fst (assign_loop inc (remaining - capacity (st res)) rest st1)"
    using pos
    by (simp add: c Let_def assigned st1_def full_record_def ref_of_def dist_of_def
        split: prod.splits del: fun_upd_apply)
  show ?case
    by (simp add: step ih)
qed

lemma single_candidate:
  "0 < capacity (st res) \<Longrightarrow> sorted_candidates inc [res] st = [candidate_of inc st res]"
  by (simp add: sorted_candidates_def)

text \<open>
  Unmet demand adds no record and raises nothing. When the resources list names each object at
  most once and the candidates' capacities add up to less than the demand of an incident,
  processing it returns exactly one record for each candidate, in the order of the sorted
  candidates, each for the whole capacity of its resource, and nothing else. One incident of
  demand 5 with a single resource of capacity 3 gives exactly one record, of 3 units, and
  leaves the resource empty. Both statements are for the exact arithmetic, where the distance
  function returns for every input; \<open>distance_error_propagates\<close> below is the case of a
  distance function that raises.
\<close>

lemma unmet_demand:
  "(distinct resources \<and>
    sum_list (map (\<lambda>r. capacity (st r)) (filter (\<lambda>r. 0 < capacity (st r)) resources)) < demand inc \<longrightarrow>
      (\<exists>st'. allocate_incident inc resources st =
         Inr (map (full_record inc st) (sorted_candidates inc resources st), st'))) \<and>
   (demand inc = 5 \<and> capacity (st res) = 3 \<longrightarrow>
      (\<exists>st'. allocate_resources [inc] [res] st =
         Inr ([\<lparr>incident_id = inc_id inc, resource_id = res_id (st res), units_assigned = 3,
                 distance_km = py_round (haversine_km (inc_lat inc) (inc_lon inc)
                                           (res_lat (st res)) (res_lon (st res))) 2\<rparr>], st') \<and>
         capacity (st' res) = 0))"
proof (intro conjI impI)
  assume a: "distinct resources \<and>
    sum_list (map (\<lambda>r. capacity (st r)) (filter (\<lambda>r. 0 < capacity (st r)) resources)) < demand inc"
  let ?cs = "sorted_candidates inc resources st"
  have "fst (assign_loop inc (demand inc) ?cs st) = map (full_record inc st) ?cs"
  proof (rule assign_loop_exhausted)
    show "distinct (map ref_of ?cs)"
      using a by (simp add: distinct_sorted_candidates)
    show "\<forall>c\<in>set ?cs. 0 < capacity (st (ref_of c))"
      using sorted_candidates_positive [of _ inc resources st] by simp
    show "sum_list (map (\<lambda>c. capacity (st (ref_of c))) ?cs) < demand inc"
      using a by (simp add: capacity_sorted_candidates)
  qed
  then show "\<exists>st'. allocate_incident inc resources st =
         Inr (map (full_record inc st) (sorted_candidates inc resources st), st')"
    by (cases "assign_loop inc (demand inc) ?cs st") (simp add: allocate_incident_sorted)
next
  assume a: "demand inc = 5 \<and> capacity (st res) = 3"
  then have "sorted_candidates inc [res] st = [candidate_of inc st res]"
    by (simp add: single_candidate)
  then show "\<exists>st'. allocate_resources [inc] [res] st =
         Inr ([\<lparr>incident_id = inc_id inc, resource_id = res_id (st res), units_assigned = 3,
                 distance_km = py_round (haversine_km (inc_lat inc) (inc_lon inc)
                                           (res_lat (st res)) (res_lon (st res))) 2\<rparr>], st') \<and>
         capacity (st' res) = 0"
    using a
    by (simp add: allocate_resources_def incidents_sorted_def allocate_incident_sorted
        candidate_of_def Let_def)
qed

section \<open>Priority ordering\<close>

lemma incidents_sorted_key: "incidents_sorted incidents = sort_key priority_key incidents"
  by (simp add: incidents_sorted_def priority_key_def [abs_def])

lemma priority_key_le:
  "priority_key x \<le> priority_key y \<longleftrightarrow>
     severity y < severity x \<or> (severity x = severity y \<and> demand y \<le> demand x)"
  by (auto simp: priority_key_def less_eq_prod_def)

lemma incidents_sorted_order:
  assumes "i < j" and "j < length (incidents_sorted incidents)"
  shows "severity (incidents_sorted incidents ! j) < severity (incidents_sorted incidents ! i) \<or>
         (severity (incidents_sorted incidents ! i) = severity (incidents_sorted incidents ! j) \<and>
          demand (incidents_sorted incidents ! j) \<le> demand (incidents_sorted incidents ! i))"
proof -
  let ?S = "incidents_sorted incidents"
  have "sorted (map priority_key ?S)"
    by (simp add: incidents_sorted_key)
  then have "map priority_key ?S ! i \<le> map priority_key ?S ! j"
    using assms by (intro sorted_nth_mono) simp_all
  then have "priority_key (?S ! i) \<le> priority_key (?S ! j)"
    using assms by simp
  then show ?thesis
    by (simp add: priority_key_le)
qed

lemma incidents_sorted_stable:
  "filter (\<lambda>x. severity x = s \<and> demand x = d) (incidents_sorted incidents) =
   filter (\<lambda>x. severity x = s \<and> demand x = d) incidents"
proof -
  have "(\<lambda>x. severity x = s \<and> demand x = d) = (\<lambda>x. priority_key x = (- s, - d))"
    by (auto simp: priority_key_def)
  then show ?thesis
    by (simp add: incidents_sorted_key sort_key_stable)
qed

lemma allocate_loop_groups:
  "allocate_loop incs resources st = Inr (records, st') \<Longrightarrow>
   \<exists>groups. records = concat groups \<and>
     list_all2 (\<lambda>g inc. \<forall>a\<in>set g. incident_id a = inc_id inc) groups incs"
proof (induction incs arbitrary: st records)
  case Nil
  then show ?case by simp
next
  case (Cons inc rest)
  from Cons.prems(1) obtain recs1 st1 recs2 where 1: "allocate_incident inc resources st = Inr (recs1, st1)"
    and 2: "allocate_loop rest resources st1 = Inr (recs2, st')" and 3: "records = recs1 @ recs2"
    by (rule allocate_loop_Cons)
  from Cons.IH [OF 2] obtain groups where g: "recs2 = concat groups"
    "list_all2 (\<lambda>g inc. \<forall>a\<in>set g. incident_id a = inc_id inc) groups rest"
    by blast
  have "\<forall>a\<in>set recs1. incident_id a = inc_id inc"
    using allocate_incident_incident_id [OF 1] by blast
  then have "records = concat (recs1 # groups) \<and>
     list_all2 (\<lambda>g inc. \<forall>a\<in>set g. incident_id a = inc_id inc) (recs1 # groups) (inc # rest)"
    using g 3 by simp
  then show ?case by blast
qed

text \<open>
  C3. Priority ordering. The run returns and its records are the concatenation of one group
  of records for each incident, every record of a group naming the incident of its group, and
  the groups follow the list \<open>incidents_sorted incidents\<close>. That list is a rearrangement of
  the input in which an earlier incident has a higher severity than a later one, or the same
  severity and a demand that is not lower, and in which the incidents of one severity and
  demand keep the order they have in the input.
\<close>

theorem priority_ordering:
  "\<exists>records st' groups.
     allocate_resources incidents resources st = Inr (records, st') \<and>
     records = concat groups \<and>
     length groups = length (incidents_sorted incidents) \<and>
     (\<forall>k<length groups. \<forall>a\<in>set (groups ! k).
        incident_id a = inc_id (incidents_sorted incidents ! k)) \<and>
     mset (incidents_sorted incidents) = mset incidents \<and>
     (\<forall>i j. i < j \<and> j < length incidents \<longrightarrow>
        severity (incidents_sorted incidents ! j) < severity (incidents_sorted incidents ! i) \<or>
        (severity (incidents_sorted incidents ! i) = severity (incidents_sorted incidents ! j) \<and>
         demand (incidents_sorted incidents ! j) \<le> demand (incidents_sorted incidents ! i))) \<and>
     (\<forall>s d. filter (\<lambda>x. severity x = s \<and> demand x = d) (incidents_sorted incidents) =
            filter (\<lambda>x. severity x = s \<and> demand x = d) incidents)"
proof -
  let ?S = "incidents_sorted incidents"
  obtain records st' where run: "allocate_resources incidents resources st = Inr (records, st')"
    and loop: "allocate_loop ?S resources st = Inr (records, st')"
    by (rule allocate_resources_cases)
  obtain groups where g: "records = concat groups"
    "list_all2 (\<lambda>g inc. \<forall>a\<in>set g. incident_id a = inc_id inc) groups ?S"
    using allocate_loop_groups [OF loop] by blast
  have len: "length groups = length ?S"
    using g(2) by (rule list_all2_lengthD)
  have grp: "\<forall>k<length groups. \<forall>a\<in>set (groups ! k). incident_id a = inc_id (?S ! k)"
    using g(2) by (simp add: list_all2_conv_all_nth)
  have perm: "length ?S = length incidents" "mset ?S = mset incidents"
    by (simp_all add: incidents_sorted_def)
  have ord: "\<forall>i j. i < j \<and> j < length incidents \<longrightarrow>
        severity (?S ! j) < severity (?S ! i) \<or>
        (severity (?S ! i) = severity (?S ! j) \<and> demand (?S ! j) \<le> demand (?S ! i))"
    using incidents_sorted_order [of _ _ incidents] perm(1) by simp
  show ?thesis
    using run g(1) len grp perm(2) ord incidents_sorted_stable by blast
qed

lemma priority_sorted:
  "incidents_sorted [tie_first, example_incident, tie_second] =
     [example_incident, tie_first, tie_second]"
  by (simp add: incidents_sorted_def tie_first_def tie_second_def example_incident_def
      less_eq_prod_def)

lemma example_incident_step:
  "allocate_incident example_incident [2, 3] example_store =
     Inr ([\<lparr>incident_id = 7, resource_id = 2, units_assigned = 2, distance_km = 0\<rparr>,
           \<lparr>incident_id = 7, resource_id = 3, units_assigned = 1,
              distance_km = py_round (6371 * pi) 2\<rparr>],
          example_final)"
  using example_run
  by (simp add: allocate_resources_def incidents_sorted_def split: sum.splits prod.splits)

lemma tie_first_step:
  "allocate_incident tie_first [2, 3] example_final =
     Inr ([\<lparr>incident_id = 8, resource_id = 3, units_assigned = 1,
              distance_km = py_round (6371 * pi) 2\<rparr>],
          example_final(3 := (example_final 3)\<lparr>capacity := 3\<rparr>))"
  by (simp add: allocate_incident_sorted sorted_candidates_def example_final_def tie_first_def
      candidate_of_def haversine_km_antipode Let_def)

lemma tie_second_step:
  "allocate_incident tie_second [2, 3] (example_final(3 := (example_final 3)\<lparr>capacity := 3\<rparr>)) =
     Inr ([\<lparr>incident_id = 9, resource_id = 3, units_assigned = 1,
              distance_km = py_round (6371 * pi) 2\<rparr>],
          example_final(3 := (example_final 3)\<lparr>capacity := 2\<rparr>))"
  by (simp add: allocate_incident_sorted sorted_candidates_def example_final_def tie_second_def
      candidate_of_def haversine_km_antipode Let_def)

lemma priority_run:
  "allocate_resources [tie_first, example_incident, tie_second] [2, 3] example_store =
     Inr ([\<lparr>incident_id = 7, resource_id = 2, units_assigned = 2, distance_km = 0\<rparr>,
           \<lparr>incident_id = 7, resource_id = 3, units_assigned = 1,
              distance_km = py_round (6371 * pi) 2\<rparr>,
           \<lparr>incident_id = 8, resource_id = 3, units_assigned = 1,
              distance_km = py_round (6371 * pi) 2\<rparr>,
           \<lparr>incident_id = 9, resource_id = 3, units_assigned = 1,
              distance_km = py_round (6371 * pi) 2\<rparr>],
          example_final(3 := (example_final 3)\<lparr>capacity := 2\<rparr>))"
  by (simp add: allocate_resources_def priority_sorted example_incident_step tie_first_step
      tie_second_step del: fun_upd_apply)

theorem priority_ordering_witness:
  "(1::nat) < 2 \<and> 2 < length [tie_first, example_incident, tie_second] \<and>
   severity tie_first = severity tie_second \<and> demand tie_first = demand tie_second \<and>
   incidents_sorted [tie_first, example_incident, tie_second] =
     [example_incident, tie_first, tie_second] \<and>
   (\<exists>records st'.
      allocate_resources [tie_first, example_incident, tie_second] [2, 3] example_store =
        Inr (records, st') \<and>
      map incident_id records = [7, 7, 8, 9])"
proof -
  have h: "(1::nat) < 2 \<and> 2 < length [tie_first, example_incident, tie_second]"
    by simp
  have t: "severity tie_first = severity tie_second \<and> demand tie_first = demand tie_second"
    by (simp add: tie_first_def tie_second_def)
  show ?thesis
    using priority_ordering [of "[tie_first, example_incident, tie_second]" "[2, 3]" example_store]
      h t
    by (simp add: priority_sorted priority_run)
qed

section \<open>Demand bound\<close>






section \<open>Rounding to doubles\<close>

text \<open>
  \<open>double_round\<close> never moves a positive number across a power of two
  (\<open>double_round_upper\<close>, \<open>double_round_lower\<close>), so it is monotone on the positive numbers; it
  leaves a double as it is, and it rounds \<open>1 + d\<close> to 1 as long as \<open>d\<close> is below half the
  distance from 1 to the next double.
\<close>

lemma round_half_even_cases:
  "round_half_even x = \<lfloor>x\<rfloor> \<and> x - of_int \<lfloor>x\<rfloor> \<le> 1 / 2 \<or>
   round_half_even x = \<lfloor>x\<rfloor> + 1 \<and> 1 / 2 \<le> x - of_int \<lfloor>x\<rfloor>"
  by (auto simp: round_half_even_def Let_def)

lemma round_half_even_near: "\<bar>of_int (round_half_even x) - x\<bar> \<le> 1 / 2"
proof -
  have "of_int \<lfloor>x\<rfloor> \<le> x" "x < of_int \<lfloor>x\<rfloor> + 1"
    by linarith+
  then show ?thesis
    using round_half_even_cases [of x] by auto
qed

lemma round_half_even_of_int: "round_half_even (of_int n) = n"
  by (simp add: round_half_even_def)

lemma round_half_even_mono:
  assumes "x \<le> y"
  shows "round_half_even x \<le> round_half_even y"
proof (rule ccontr)
  assume "\<not> round_half_even x \<le> round_half_even y"
  then have "round_half_even y + 1 \<le> round_half_even x"
    by simp
  then have gap: "of_int (round_half_even y) + 1 \<le> (of_int (round_half_even x) :: real)"
    by (metis of_int_1 of_int_add of_int_le_iff)
  have nx: "of_int (round_half_even x) \<le> x + 1 / 2" and ny: "y - 1 / 2 \<le> of_int (round_half_even y)"
    using round_half_even_near [of x] round_half_even_near [of y] by linarith+
  have "y \<le> x"
    using gap nx ny by linarith
  then have "x = y"
    using assms by simp
  then show False
    using \<open>\<not> round_half_even x \<le> round_half_even y\<close> by simp
qed

lemma round_half_even_ge: "of_int n \<le> x \<Longrightarrow> n \<le> round_half_even x"
  using round_half_even_mono [of "of_int n" x] by (simp add: round_half_even_of_int)

lemma round_half_even_le: "x \<le> of_int n \<Longrightarrow> round_half_even x \<le> n"
  using round_half_even_mono [of x "of_int n"] by (simp add: round_half_even_of_int)

lemma ulp_pos: "0 < ulp x"
  by (simp add: ulp_def)

lemma ulp_top: "2 ^ 53 * ulp x = 2 powr (of_int (binade x) + 1)"
proof -
  have "(2::real) ^ 53 = 2 powr 53"
    by simp
  then have "2 ^ 53 * ulp x = 2 powr 53 * 2 powr (of_int (binade x) - 52)"
    by (simp only: ulp_def)
  also have "\<dots> = 2 powr (53 + (of_int (binade x) - 52))"
    by (simp only: powr_add)
  finally show ?thesis
    by (simp add: algebra_simps)
qed

lemma ulp_bottom: "2 ^ 52 * ulp x = 2 powr (of_int (binade x))"
proof -
  have "(2::real) ^ 52 = 2 powr 52"
    by simp
  then have "2 ^ 52 * ulp x = 2 powr 52 * 2 powr (of_int (binade x) - 52)"
    by (simp only: ulp_def)
  also have "\<dots> = 2 powr (52 + (of_int (binade x) - 52))"
    by (simp only: powr_add)
  finally show ?thesis
    by simp
qed

lemma binade_bounds:
  assumes "0 < x"
  shows "x < 2 powr (of_int (binade x) + 1)"
    and "- 1022 \<le> \<lfloor>log 2 x\<rfloor> \<Longrightarrow> 2 powr (of_int (binade x)) \<le> x"
proof -
  define k where "k = \<lfloor>log 2 x\<rfloor>"
  have k: "2 powr (of_int k) \<le> x \<and> x < 2 powr (of_int (k + 1))"
    using floor_log_eq_powr_iff [of x 2 k] assms by (simp add: k_def)
  have b: "binade x = max k (- 1022)"
    using assms by (simp add: binade_def k_def)
  have "(2::real) powr (of_int (k + 1)) \<le> 2 powr (of_int (binade x) + 1)"
    by (simp add: b)
  then show "x < 2 powr (of_int (binade x) + 1)"
    using k by linarith
  show "2 powr (of_int (binade x)) \<le> x" if "- 1022 \<le> \<lfloor>log 2 x\<rfloor>"
  proof -
    have "binade x = k"
      using that by (simp add: b k_def)
    then show ?thesis
      using k by simp
  qed
qed

lemma binade_mono: "0 < x \<Longrightarrow> x \<le> y \<Longrightarrow> binade x \<le> binade y"
  unfolding binade_def by (intro max.mono floor_mono) (simp_all add: log_le_cancel_iff)

lemma double_round_pos: "0 < x \<Longrightarrow> double_round x = of_int (round_half_even (x / ulp x)) * ulp x"
  by (simp add: double_round_def)

lemma double_round_upper:
  assumes "0 < x"
  shows "double_round x \<le> 2 powr (of_int (binade x) + 1)"
proof -
  have "x < 2 ^ 53 * ulp x"
    using binade_bounds(1) [OF assms] by (simp only: ulp_top)
  then have "x / ulp x < 2 ^ 53"
    by (simp only: pos_divide_less_eq [OF ulp_pos])
  then have "x / ulp x \<le> of_int (2 ^ 53)"
    by simp
  then have "round_half_even (x / ulp x) \<le> 2 ^ 53"
    by (rule round_half_even_le)
  then have "(of_int (round_half_even (x / ulp x)) :: real) \<le> 2 ^ 53"
    by (metis of_int_le_iff of_int_numeral of_int_power)
  then have "of_int (round_half_even (x / ulp x)) * ulp x \<le> 2 ^ 53 * ulp x"
    using ulp_pos [of x] by (intro mult_right_mono) simp_all
  then show ?thesis
    unfolding double_round_pos [OF assms] ulp_top .
qed

lemma double_round_lower:
  assumes "0 < x" and "- 1022 \<le> \<lfloor>log 2 x\<rfloor>"
  shows "2 powr (of_int (binade x)) \<le> double_round x"
proof -
  have "2 ^ 52 * ulp x \<le> x"
    using binade_bounds(2) [OF assms] by (simp only: ulp_bottom)
  then have "2 ^ 52 \<le> x / ulp x"
    by (simp only: pos_le_divide_eq [OF ulp_pos])
  then have "of_int (2 ^ 52) \<le> x / ulp x"
    by simp
  then have "2 ^ 52 \<le> round_half_even (x / ulp x)"
    by (rule round_half_even_ge)
  then have "2 ^ 52 \<le> (of_int (round_half_even (x / ulp x)) :: real)"
    by (metis of_int_le_iff of_int_numeral of_int_power)
  then have "2 ^ 52 * ulp x \<le> of_int (round_half_even (x / ulp x)) * ulp x"
    using ulp_pos [of x] by (intro mult_right_mono) simp_all
  then show ?thesis
    unfolding double_round_pos [OF assms(1)] ulp_bottom .
qed

lemma double_round_mono:
  assumes "0 < x" and "x \<le> y"
  shows "double_round x \<le> double_round y"
proof (cases "binade x = binade y")
  case True
  then have u: "ulp x = ulp y"
    by (simp add: ulp_def)
  have "x / ulp y \<le> y / ulp y"
    using assms(2) ulp_pos [of y] by (simp add: divide_right_mono)
  then have "round_half_even (x / ulp y) \<le> round_half_even (y / ulp y)"
    by (rule round_half_even_mono)
  then have "(of_int (round_half_even (x / ulp y)) :: real) \<le> of_int (round_half_even (y / ulp y))"
    by simp
  then have "of_int (round_half_even (x / ulp y)) * ulp y \<le> of_int (round_half_even (y / ulp y)) * ulp y"
    using ulp_pos [of y] by (simp add: mult_right_mono)
  then show ?thesis
    using assms by (simp add: double_round_pos u)
next
  case False
  have y: "0 < y"
    using assms by simp
  have lt: "binade x < binade y"
    using binade_mono [OF assms] False by simp
  have "- 1022 \<le> binade x"
    by (simp add: binade_def)
  then have "- 1022 < binade y"
    using lt by simp
  then have normal: "- 1022 \<le> \<lfloor>log 2 y\<rfloor>"
    using y by (simp add: binade_def max_def split: if_splits)
  have "double_round x \<le> 2 powr (of_int (binade x) + 1)"
    by (rule double_round_upper [OF assms(1)])
  also have "\<dots> \<le> 2 powr (of_int (binade y))"
    using lt by simp
  also have "\<dots> \<le> double_round y"
    by (rule double_round_lower [OF y normal])
  finally show ?thesis .
qed

lemma round_half_even_below_half:
  assumes "of_int n \<le> x" and "x < of_int n + 1 / 2"
  shows "round_half_even x = n"
proof -
  have "\<lfloor>x\<rfloor> = n"
    using assms by (intro floor_unique) linarith+
  then show ?thesis
    using assms by (simp add: round_half_even_def Let_def)
qed

lemma binade_eqI:
  assumes "0 < x" and "2 powr (of_int e) \<le> x" and "x < 2 powr (of_int (e + 1))" and "- 1022 \<le> e"
  shows "binade x = e"
proof -
  have "\<lfloor>log 2 x\<rfloor> = e"
    using floor_log_eq_powr_iff [of x 2 e] assms by simp
  then show ?thesis
    using assms by (simp add: binade_def)
qed

lemma double_round_ge_one:
  assumes "1 \<le> x"
  shows "1 \<le> double_round x"
proof -
  have x: "0 < x"
    using assms by simp
  have "0 \<le> log 2 x"
    using assms by simp
  then have k: "0 \<le> \<lfloor>log 2 x\<rfloor>"
    by simp
  have "\<lfloor>log 2 x\<rfloor> \<le> binade x"
    unfolding binade_def using x by simp
  with k have "0 \<le> binade x"
    by linarith
  then have "(1::real) \<le> 2 powr (of_int (binade x))"
    by (simp add: ge_one_powr_ge_zero)
  also have "\<dots> \<le> double_round x"
    using k by (intro double_round_lower [OF x]) simp
  finally show ?thesis .
qed

lemma double_round_exact:
  assumes "0 < x" and "x = of_int n * ulp x"
  shows "double_round x = x"
proof -
  have "x / ulp x = of_int n"
    using assms(2) ulp_pos [of x] by (metis less_irrefl nonzero_mult_div_cancel_right)
  then show ?thesis
    using assms by (simp add: double_round_pos round_half_even_of_int)
qed

lemma binade_one: "binade 1 = 0"
  by (simp add: binade_def)

lemma double_round_one: "double_round 1 = 1"
proof (rule double_round_exact [where n = "2 ^ 52"])
  have "ulp 1 = 2 powr (- 52)"
    by (simp add: ulp_def binade_one)
  then have "of_int (2 ^ 52) * ulp 1 = 2 powr 52 * 2 powr (- 52)"
    by simp
  also have "\<dots> = 1"
    by (simp only: powr_add [symmetric]) simp
  finally show "1 = of_int (2 ^ 52) * ulp 1"
    by simp
qed simp

lemma double_round_absorb:
  assumes "0 \<le> d" and "d < 1 / 2 ^ 53"
  shows "double_round (1 + d) = 1"
proof -
  have small: "d < 1"
  proof -
    have "(1::real) / 2 ^ 53 \<le> 1"
      by simp
    then show ?thesis
      using assms(2) by linarith
  qed
  have pos: "0 < 1 + d"
    using assms(1) by simp
  have b: "binade (1 + d) = 0"
    using assms(1) small by (intro binade_eqI) simp_all
  have u: "ulp (1 + d) = 2 powr (- 52)"
    by (simp add: ulp_def b)
  have inv: "1 / (2 powr (- 52)) = (2::real) ^ 52"
    by (simp add: powr_minus field_simps)
  have q: "(1 + d) / ulp (1 + d) = 2 ^ 52 + d * 2 ^ 52"
    unfolding u using inv by (simp add: field_simps)
  have "d * 2 ^ 52 < 1 / 2 ^ 53 * 2 ^ 52"
    using assms(2) by (intro mult_strict_right_mono) simp_all
  also have "\<dots> = 1 / 2"
    by simp
  finally have frac: "d * 2 ^ 52 < 1 / 2" .
  have "0 \<le> d * 2 ^ 52"
    using assms(1) by simp
  then have "round_half_even ((1 + d) / ulp (1 + d)) = 2 ^ 52"
    unfolding q using frac by (intro round_half_even_below_half) simp_all
  then have "double_round (1 + d) = of_int (2 ^ 52) * 2 powr (- 52)"
    using pos by (simp add: double_round_pos u)
  also have "\<dots> = 2 powr 52 * 2 powr (- 52)"
    by simp
  also have "\<dots> = 1"
    by (simp only: powr_add [symmetric]) simp
  finally show ?thesis .
qed

lemma double_round_ten: "double_round 10 = 10"
proof (rule double_round_exact [where n = "10 * 2 ^ 49"])
  have b: "binade 10 = 3"
    by (intro binade_eqI) simp_all
  have "ulp 10 = 2 powr (- 49)"
    by (simp add: ulp_def b)
  then have "of_int (10 * 2 ^ 49) * ulp 10 = 10 * (2 powr 49 * 2 powr (- 49))"
    by simp
  also have "\<dots> = 10"
    by (simp only: powr_add [symmetric]) simp
  finally show "10 = of_int (10 * 2 ^ 49) * ulp 10"
    by simp
qed simp

section \<open>The allocation for a given arithmetic\<close>

text \<open>
  At the exact distance and score, \<open>allocate_resources_fp\<close> is \<open>allocate_resources\<close>. For any
  distance and score, a run that returns has gone through every incident: each candidate
  carries the distance and the score computed for it, and the records of the incident follow
  the sorted candidates.
\<close>

lemma score_candidates_fp_exact:
  "score_candidates_fp haversine exact_score inc resources st = score_candidates inc resources st"
  by (induction resources) (simp_all add: exact_score_def split: sum.splits)

lemma allocate_incident_fp_exact:
  "allocate_incident_fp haversine exact_score inc resources st = allocate_incident inc resources st"
  by (simp add: allocate_incident_fp_def allocate_incident_def score_candidates_fp_exact)

lemma allocate_loop_fp_exact:
  "allocate_loop_fp haversine exact_score incs resources st = allocate_loop incs resources st"
  by (induction incs arbitrary: st)
     (simp_all add: allocate_incident_fp_exact split: sum.splits prod.splits)

lemma allocate_resources_fp_exact:
  "allocate_resources_fp haversine exact_score incidents resources st =
     allocate_resources incidents resources st"
  by (simp add: allocate_resources_fp_def allocate_resources_def allocate_loop_fp_exact)

lemma score_candidates_fp_refs:
  "score_candidates_fp hav score inc resources st = Inr cands \<Longrightarrow>
   map ref_of cands = filter (\<lambda>r. 0 < capacity (st r)) resources"
  by (induction resources arbitrary: cands)
     (auto simp: ref_of_def split: if_splits sum.splits)

lemma score_candidates_fp_values:
  "score_candidates_fp hav score inc resources st = Inr cands \<Longrightarrow> c \<in> set cands \<Longrightarrow>
   hav (inc_lat inc) (inc_lon inc) (res_lat (st (ref_of c))) (res_lon (st (ref_of c))) =
     Inr (dist_of c) \<and>
   score (severity inc) (dist_of c) = Inr (fst c)"
  by (induction resources arbitrary: cands)
     (auto simp: ref_of_def dist_of_def split: if_splits sum.splits)

lemma score_candidates_fp_raises:
  "r \<in> set resources \<Longrightarrow> 0 < capacity (st r) \<Longrightarrow>
   hav (inc_lat inc) (inc_lon inc) (res_lat (st r)) (res_lon (st r)) = Inl e \<Longrightarrow>
   \<exists>e'. score_candidates_fp hav score inc resources st = Inl e'"
  by (induction resources) (auto split: sum.splits)

text \<open>
  Line 78 has no handler: when the distance function raises for a resource that has capacity
  left, the run on that incident raises.
\<close>

lemma distance_error_propagates:
  assumes "r \<in> set resources" and "0 < capacity (st r)"
    and "hav (inc_lat inc) (inc_lon inc) (res_lat (st r)) (res_lon (st r)) = Inl e"
  shows "\<exists>e'. allocate_resources_fp hav score [inc] resources st = Inl e'"
proof -
  from score_candidates_fp_raises [where hav = hav and st = st and inc = inc, OF assms]
  obtain e' where "score_candidates_fp hav score inc resources st = Inl e'"
    by blast
  then show ?thesis
    by (simp add: allocate_resources_fp_def incidents_sorted_def allocate_incident_fp_def)
qed

lemma allocate_incident_fp_Inr:
  assumes "allocate_incident_fp hav score inc resources st = Inr (records, st')"
  obtains cands where "score_candidates_fp hav score inc resources st = Inr cands"
    and "assign_loop inc (demand inc) (sort_key (\<lambda>x. - fst x) cands) st = (records, st')"
  using assms by (auto simp: allocate_incident_fp_def split: sum.splits)

lemma allocate_loop_fp_Cons:
  assumes "allocate_loop_fp hav score (inc # rest) resources st = Inr (records, st')"
  obtains recs1 st1 recs2 where "allocate_incident_fp hav score inc resources st = Inr (recs1, st1)"
    and "allocate_loop_fp hav score rest resources st1 = Inr (recs2, st')"
    and "records = recs1 @ recs2"
  using assms by (auto split: sum.splits prod.splits)

lemma allocate_loop_fp_append:
  assumes "allocate_loop_fp hav score (xs @ ys) resources st = Inr (records, st')"
  obtains recs1 st1 recs2 where "allocate_loop_fp hav score xs resources st = Inr (recs1, st1)"
    and "allocate_loop_fp hav score ys resources st1 = Inr (recs2, st')"
    and "records = recs1 @ recs2"
proof -
  have "\<exists>recs1 st1 recs2. allocate_loop_fp hav score xs resources st = Inr (recs1, st1) \<and>
          allocate_loop_fp hav score ys resources st1 = Inr (recs2, st') \<and> records = recs1 @ recs2"
    using assms
  proof (induction xs arbitrary: st records)
    case Nil
    then show ?case by simp
  next
    case (Cons x xs)
    from Cons.prems
    have "allocate_loop_fp hav score (x # (xs @ ys)) resources st = Inr (records, st')"
      by simp
    then obtain r1 s1 r2 where 1: "allocate_incident_fp hav score x resources st = Inr (r1, s1)"
      and 2: "allocate_loop_fp hav score (xs @ ys) resources s1 = Inr (r2, st')"
      and 3: "records = r1 @ r2"
      by (rule allocate_loop_fp_Cons)
    from Cons.IH [OF 2] obtain q1 t1 q2
      where 4: "allocate_loop_fp hav score xs resources s1 = Inr (q1, t1)"
        and 5: "allocate_loop_fp hav score ys resources t1 = Inr (q2, st')" and 6: "r2 = q1 @ q2"
      by blast
    show ?case
      using 1 3 4 5 6 by simp
  qed
  then show ?thesis using that by blast
qed

lemma allocate_loop_fp_incident_id:
  "allocate_loop_fp hav score incs resources st = Inr (records, st') \<Longrightarrow> a \<in> set records \<Longrightarrow>
   incident_id a \<in> inc_id ` set incs"
proof (induction incs arbitrary: st records)
  case Nil
  then show ?case by simp
next
  case (Cons inc rest)
  from Cons.prems(1) obtain recs1 st1 recs2
    where 1: "allocate_incident_fp hav score inc resources st = Inr (recs1, st1)"
      and 2: "allocate_loop_fp hav score rest resources st1 = Inr (recs2, st')"
      and 3: "records = recs1 @ recs2"
    by (rule allocate_loop_fp_Cons)
  from 1 obtain cands
    where 4: "assign_loop inc (demand inc) (sort_key (\<lambda>x. - fst x) cands) st = (recs1, st1)"
    by (rule allocate_incident_fp_Inr)
  show ?case
    using Cons.prems(2) 3 assign_loop_incident_id [OF 4, of a] Cons.IH [OF 2] by auto
qed

lemma allocate_loop_fp_frame:
  "allocate_loop_fp hav score incs resources st = Inr (records, st') \<Longrightarrow>
     res_id (st' r) = res_id (st r) \<and> res_lat (st' r) = res_lat (st r) \<and>
     res_lon (st' r) = res_lon (st r) \<and> res_type (st' r) = res_type (st r)"
proof (induction incs arbitrary: st records)
  case Nil
  then show ?case by simp
next
  case (Cons inc rest)
  from Cons.prems obtain recs1 st1 recs2
    where 1: "allocate_incident_fp hav score inc resources st = Inr (recs1, st1)"
      and 2: "allocate_loop_fp hav score rest resources st1 = Inr (recs2, st')"
    by (rule allocate_loop_fp_Cons)
  from 1 obtain cands
    where 3: "assign_loop inc (demand inc) (sort_key (\<lambda>x. - fst x) cands) st = (recs1, st1)"
    by (rule allocate_incident_fp_Inr)
  show ?case
    using Cons.IH [OF 2] assign_loop_frame [OF 3, of r] by simp
qed

lemma assign_loop_stop:
  "assign_loop inc remaining cs st = (records, st') \<Longrightarrow>
   length records = length cs \<or> remaining \<le> sum_list (map units_assigned records)"
proof (induction cs arbitrary: remaining st records st')
  case Nil
  then show ?case by simp
next
  case (Cons c rest)
  obtain score res d where c: "c = (score, res, d)"
    by (cases c) auto
  show ?case
  proof (cases "remaining \<le> 0")
    case True
    then show ?thesis
      using Cons.prems by (simp add: c)
  next
    case False
    define assigned where "assigned = min remaining (capacity (st res))"
    define st1 where "st1 = st(res := (st res)\<lparr>capacity := capacity (st res) - assigned\<rparr>)"
    obtain recs st2 where rest: "assign_loop inc (remaining - assigned) rest st1 = (recs, st2)"
      by (cases "assign_loop inc (remaining - assigned) rest st1")
    have records: "records = \<lparr>incident_id = inc_id inc, resource_id = res_id (st res),
        units_assigned = assigned, distance_km = py_round d 2\<rparr> # recs"
      using Cons.prems False rest
      by (simp add: c Let_def assigned_def st1_def del: fun_upd_apply)
    show ?thesis
      using Cons.IH [OF rest] by (auto simp: records)
  qed
qed

lemma allocate_resources_fp_incident:
  assumes run: "allocate_resources_fp hav score incidents resources st = Inr (records, st')"
    and ids: "distinct (map inc_id incidents)" and mem: "inc \<in> set incidents"
  obtains pre post recs_pre st_inc cands st1 where
    "incidents_sorted incidents = pre @ inc # post"
    "allocate_loop_fp hav score pre resources st = Inr (recs_pre, st_inc)"
    "score_candidates_fp hav score inc resources st_inc = Inr cands"
    "assign_loop inc (demand inc) (sort_key (\<lambda>x. - fst x) cands) st_inc =
       (records_of_incident (inc_id inc) records, st1)"
proof -
  let ?S = "incidents_sorted incidents"
  have loop: "allocate_loop_fp hav score ?S resources st = Inr (records, st')"
    using run by (simp add: allocate_resources_fp_def)
  have "inc \<in> set ?S"
    using mem by (simp add: incidents_sorted_def)
  then obtain pre post where split: "?S = pre @ inc # post"
    by (auto dest: split_list)
  have "distinct (map inc_id ?S)"
    using ids by (simp add: incidents_sorted_def distinct_map_sort_key)
  then have other: "inc_id inc \<notin> inc_id ` set pre" "inc_id inc \<notin> inc_id ` set post"
    by (simp_all add: split)
  from loop obtain recs_pre st_inc recs_rest
    where 1: "allocate_loop_fp hav score pre resources st = Inr (recs_pre, st_inc)"
      and 2: "allocate_loop_fp hav score (inc # post) resources st_inc = Inr (recs_rest, st')"
      and 3: "records = recs_pre @ recs_rest"
    unfolding split by (rule allocate_loop_fp_append)
  from 2 obtain recs_inc st1 recs_post
    where 4: "allocate_incident_fp hav score inc resources st_inc = Inr (recs_inc, st1)"
      and 5: "allocate_loop_fp hav score post resources st1 = Inr (recs_post, st')"
      and 6: "recs_rest = recs_inc @ recs_post"
    by (rule allocate_loop_fp_Cons)
  from 4 obtain cands
    where 7: "score_candidates_fp hav score inc resources st_inc = Inr cands"
      and 8: "assign_loop inc (demand inc) (sort_key (\<lambda>x. - fst x) cands) st_inc = (recs_inc, st1)"
    by (rule allocate_incident_fp_Inr)
  have "\<forall>a\<in>set recs_pre. incident_id a \<noteq> inc_id inc"
    using allocate_loop_fp_incident_id [OF 1] other(1) by metis
  then have pre0: "filter (\<lambda>a. incident_id a = inc_id inc) recs_pre = []"
    by (simp add: filter_empty_conv)
  have "\<forall>a\<in>set recs_post. incident_id a \<noteq> inc_id inc"
    using allocate_loop_fp_incident_id [OF 5] other(2) by metis
  then have post0: "filter (\<lambda>a. incident_id a = inc_id inc) recs_post = []"
    by (simp add: filter_empty_conv)
  have own: "filter (\<lambda>a. incident_id a = inc_id inc) recs_inc = recs_inc"
    using assign_loop_incident_id [OF 8] by (simp add: filter_id_conv)
  have "records_of_incident (inc_id inc) records = recs_inc"
    by (simp add: records_of_incident_def 3 6 pre0 post0 own)
  then show ?thesis
    using that [OF split 1 7] 8 by simp
qed

lemma incident_walk:
  assumes run: "allocate_resources_fp hav score incidents resources st = Inr (records, st')"
    and ids: "distinct (map inc_id incidents)" and mem: "inc \<in> set incidents"
  obtains pre post recs_pre st_inc cands where
    "incidents_sorted incidents = pre @ inc # post"
    "allocate_loop_fp hav score pre resources st = Inr (recs_pre, st_inc)"
    "score_candidates_fp hav score inc resources st_inc = Inr cands"
    "map ref_of cands = filter (\<lambda>r. 0 < capacity (st_inc r)) resources"
    "\<forall>c\<in>set cands.
       hav (inc_lat inc) (inc_lon inc) (res_lat (st (ref_of c))) (res_lon (st (ref_of c))) =
         Inr (dist_of c) \<and>
       score (severity inc) (dist_of c) = Inr (fst c)"
    "map resource_id (records_of_incident (inc_id inc) records) =
       map (\<lambda>c. res_id (st (ref_of c)))
         (take (length (records_of_incident (inc_id inc) records))
            (sort_key (\<lambda>x. - fst x) cands))"
    "map distance_km (records_of_incident (inc_id inc) records) =
       map (\<lambda>c. py_round (dist_of c) 2)
         (take (length (records_of_incident (inc_id inc) records))
            (sort_key (\<lambda>x. - fst x) cands))"
    "length (records_of_incident (inc_id inc) records) = length cands \<or>
     demand inc \<le> units_of_incident (inc_id inc) records"
proof -
  let ?recs = "records_of_incident (inc_id inc) records"
  let ?cs = "\<lambda>cands. sort_key (\<lambda>x. - fst x) cands"
  from run ids mem obtain pre post recs_pre st_inc cands st1
    where 1: "incidents_sorted incidents = pre @ inc # post"
      and 2: "allocate_loop_fp hav score pre resources st = Inr (recs_pre, st_inc)"
      and 3: "score_candidates_fp hav score inc resources st_inc = Inr cands"
      and 4: "assign_loop inc (demand inc) (?cs cands) st_inc = (?recs, st1)"
    by (rule allocate_resources_fp_incident)
  have frame: "res_id (st_inc r) = res_id (st r) \<and> res_lat (st_inc r) = res_lat (st r) \<and>
      res_lon (st_inc r) = res_lon (st r)" for r
    using allocate_loop_fp_frame [OF 2, of r] by simp
  have 5: "map ref_of cands = filter (\<lambda>r. 0 < capacity (st_inc r)) resources"
    using 3 by (rule score_candidates_fp_refs)
  have 6: "\<forall>c\<in>set cands.
       hav (inc_lat inc) (inc_lon inc) (res_lat (st (ref_of c))) (res_lon (st (ref_of c))) =
         Inr (dist_of c) \<and>
       score (severity inc) (dist_of c) = Inr (fst c)"
    using score_candidates_fp_values [OF 3] frame by simp
  have 7: "map resource_id ?recs =
       map (\<lambda>c. res_id (st (ref_of c))) (take (length ?recs) (?cs cands))"
    and 8: "map distance_km ?recs =
       map (\<lambda>c. py_round (dist_of c) 2) (take (length ?recs) (?cs cands))"
    using assign_loop_prefix [OF 4] frame by simp_all
  have "units_of_incident (inc_id inc) records = sum_list (map units_assigned ?recs)"
    by (simp add: units_of_incident_def records_of_incident_def)
  then have 9: "length ?recs = length cands \<or>
      demand inc \<le> units_of_incident (inc_id inc) records"
    using assign_loop_stop [OF 4] by simp
  show ?thesis
    using that [OF 1 2 3 5 6 7 8 9] .
qed

section \<open>Sorting by score\<close>

text \<open>
  Line 82 sorts by the key \<open>- score\<close> with a stable sort: the result is descending in score,
  and candidates with the same score keep the order in which they were scored, which is the
  order of the resources list. There is only one list with these properties.
\<close>

lemma filter_eq_appendD:
  "filter P ys = as @ bs \<Longrightarrow> \<exists>us vs. ys = us @ vs \<and> filter P us = as \<and> filter P vs = bs"
proof (induction ys arbitrary: as)
  case Nil
  then show ?case by simp
next
  case (Cons y ys)
  show ?case
  proof (cases "P y")
    case False
    then have "filter P ys = as @ bs"
      using Cons.prems by simp
    from Cons.IH [OF this] obtain us vs
      where "ys = us @ vs" "filter P us = as" "filter P vs = bs"
      by blast
    then have "y # ys = (y # us) @ vs \<and> filter P (y # us) = as \<and> filter P vs = bs"
      using False by simp
    then show ?thesis by blast
  next
    case True
    show ?thesis
    proof (cases as)
      case Nil
      then have "y # ys = [] @ (y # ys) \<and> filter P [] = as \<and> filter P (y # ys) = bs"
        using Cons.prems by simp
      then show ?thesis by blast
    next
      case (Cons a as')
      then have "filter P ys = as' @ bs" and a: "a = y"
        using Cons.prems True by simp_all
      from Cons.IH [OF this(1)] obtain us vs
        where "ys = us @ vs" "filter P us = as'" "filter P vs = bs"
        by blast
      then have "y # ys = (y # us) @ vs \<and> filter P (y # us) = as \<and> filter P vs = bs"
        using True Cons a by simp
      then show ?thesis by blast
    qed
  qed
qed

lemma filter_split:
  assumes "filter P ys = as @ x # bs @ y # cs"
  shows "\<exists>us vs ws. ys = us @ x # vs @ y # ws"
proof -
  from filter_eq_appendD [OF assms] obtain u1 v1 where 1: "ys = u1 @ v1"
    and "filter P v1 = x # bs @ y # cs"
    by blast
  from filter_eq_ConsD [OF this(2)] obtain u2 v2 where 2: "v1 = u2 @ x # v2"
    and "bs @ y # cs = filter P v2"
    by blast
  from filter_eq_appendD [OF this(2) [symmetric]] obtain u3 v3 where 3: "v2 = u3 @ v3"
    and "filter P v3 = y # cs"
    by blast
  from filter_eq_ConsD [OF this(2)] obtain u4 v4 where 4: "v3 = u4 @ y # v4"
    by blast
  have "ys = (u1 @ u2) @ x # (u3 @ u4) @ y # v4"
    by (simp add: 1 2 3 4)
  then show ?thesis by blast
qed

lemma filter_order:
  assumes "i < j" and "j < length xs" and "P (xs ! i)" and "P (xs ! j)"
    and "filter P ys = filter P xs"
  shows "\<exists>us vs ws. ys = us @ xs ! i # vs @ xs ! j # ws"
proof -
  let ?r = "drop (Suc i) xs"
  let ?k = "j - Suc i"
  have i: "i < length xs"
    using assms(1,2) by simp
  have xs: "xs = take i xs @ xs ! i # ?r"
    using i by (rule id_take_nth_drop)
  have k: "?k < length ?r"
    using assms(1,2) by simp
  have rk: "?r ! ?k = xs ! j"
    using assms(1,2) by simp
  have r: "?r = take ?k ?r @ xs ! j # drop (Suc ?k) ?r"
    using id_take_nth_drop [OF k] unfolding rk .
  have "filter P xs = filter P (take i xs) @ filter P (xs ! i # ?r)"
    using xs by (metis filter_append)
  also have "filter P (xs ! i # ?r) = xs ! i # filter P ?r"
    using assms(3) by simp
  also have "filter P ?r = filter P (take ?k ?r) @ filter P (xs ! j # drop (Suc ?k) ?r)"
    using r by (metis filter_append)
  also have "filter P (xs ! j # drop (Suc ?k) ?r) = xs ! j # filter P (drop (Suc ?k) ?r)"
    using assms(4) by simp
  finally have "filter P ys =
      filter P (take i xs) @
        xs ! i # filter P (take ?k ?r) @ xs ! j # filter P (drop (Suc ?k) ?r)"
    using assms(5) by simp
  then show ?thesis
    by (rule filter_split)
qed

lemma by_score_descending:
  fixes cands :: "candidate list"
  assumes "p < q" and "q < length cands"
  shows "fst (sort_key (\<lambda>x. - fst x) cands ! q) \<le> fst (sort_key (\<lambda>x. - fst x) cands ! p)"
proof -
  let ?cs = "sort_key (\<lambda>x. - fst x) cands"
  have "sorted (map (\<lambda>x. - fst x) ?cs)"
    by (rule sorted_sort_key)
  then have "map (\<lambda>x. - fst x) ?cs ! p \<le> map (\<lambda>x. - fst x) ?cs ! q"
    using assms by (intro sorted_nth_mono) simp_all
  then show ?thesis
    using assms by simp
qed

lemma by_score_stable:
  fixes cands :: "candidate list"
  shows "filter (\<lambda>c. fst c = s) (sort_key (\<lambda>x. - fst x) cands) = filter (\<lambda>c. fst c = s) cands"
  using sort_key_stable [of "\<lambda>x. - fst x" "- s" cands] by simp

lemma by_score_ties:
  fixes cands :: "candidate list"
  assumes "p < q" and "q < length cands"
    and "fst (sort_key (\<lambda>x. - fst x) cands ! p) = fst (sort_key (\<lambda>x. - fst x) cands ! q)"
    and "map ref_of cands = filter P resources"
  shows "\<exists>us vs ws. resources =
           us @ ref_of (sort_key (\<lambda>x. - fst x) cands ! p) # vs @
             ref_of (sort_key (\<lambda>x. - fst x) cands ! q) # ws"
proof -
  let ?cs = "sort_key (\<lambda>x. - fst x) cands"
  let ?Q = "\<lambda>c. fst c = fst (?cs ! p)"
  have "q < length ?cs"
    using assms(2) by simp
  moreover have "?Q (?cs ! p)" "?Q (?cs ! q)"
    using assms(3) by simp_all
  moreover have "filter ?Q cands = filter ?Q ?cs"
    by (simp add: by_score_stable)
  ultimately have "\<exists>us vs ws. cands = us @ ?cs ! p # vs @ ?cs ! q # ws"
    using assms(1) by (intro filter_order)
  then obtain us vs ws where "cands = us @ ?cs ! p # vs @ ?cs ! q # ws"
    by blast
  then have "map ref_of cands =
      map ref_of us @ ref_of (?cs ! p) # map ref_of vs @ ref_of (?cs ! q) # map ref_of ws"
    by (metis list.simps(9) map_append)
  then have "filter P resources =
      map ref_of us @ ref_of (?cs ! p) # map ref_of vs @ ref_of (?cs ! q) # map ref_of ws"
    using assms(4) by simp
  then show ?thesis
    by (rule filter_split)
qed

lemma by_score_unique:
  fixes cands :: "candidate list"
  assumes "mset cs = mset cands"
    and "\<forall>p q. p < q \<and> q < length cs \<longrightarrow> fst (cs ! q) \<le> fst (cs ! p)"
    and "\<forall>s. filter (\<lambda>c. fst c = s) cs = filter (\<lambda>c. fst c = s) cands"
  shows "cs = sort_key (\<lambda>x. - fst x) cands"
proof (rule properties_for_sort_key [symmetric])
  show "mset cs = mset cands"
    by (rule assms(1))
  show "filter (\<lambda>x. - fst k = - fst x) cs = filter (\<lambda>x. - fst k = - fst x) cands" for k
  proof -
    have "(\<lambda>x :: candidate. - fst k = - fst x) = (\<lambda>x. fst x = fst k)"
      by auto
    then show ?thesis
      using assms(3) by simp
  qed
  show "sorted (map (\<lambda>x. - fst x) cs)"
    unfolding sorted_iff_nth_mono_less using assms(2) by simp
qed

section \<open>The score in doubles\<close>

lemma score_double_Inr:
  assumes "0 \<le> d"
  shows "score_double sev d = Inr (double_round (sev / double_round (1 + d)))"
proof -
  have "1 \<le> double_round (1 + d)"
    using assms by (intro double_round_ge_one) simp
  then show ?thesis
    by (simp add: score_double_def Let_def)
qed

lemma score_double_distance:
  assumes "0 < sev" and "0 \<le> d1" and "d1 \<le> d2"
  shows "double_round (sev / double_round (1 + d2)) \<le> double_round (sev / double_round (1 + d1))"
proof -
  have 1: "1 \<le> double_round (1 + d1)"
    using assms(2) by (intro double_round_ge_one) simp
  have 2: "double_round (1 + d1) \<le> double_round (1 + d2)"
    using assms(2,3) by (intro double_round_mono) simp_all
  have "sev / double_round (1 + d2) \<le> sev / double_round (1 + d1)"
    using assms(1) 1 2 by (intro divide_left_mono) simp_all
  moreover have "0 < sev / double_round (1 + d2)"
    using assms(1) 1 2 by simp
  ultimately show ?thesis
    by (intro double_round_mono)
qed

lemma score_double_severity:
  assumes "0 < sev" and "sev \<le> sev'" and "0 \<le> d"
  shows "double_round (sev / double_round (1 + d)) \<le> double_round (sev' / double_round (1 + d))"
proof -
  have 1: "1 \<le> double_round (1 + d)"
    using assms(3) by (intro double_round_ge_one) simp
  have "sev / double_round (1 + d) \<le> sev' / double_round (1 + d)"
    using assms(2) 1 by (intro divide_right_mono) simp_all
  moreover have "0 < sev / double_round (1 + d)"
    using assms(1) 1 by simp
  ultimately show ?thesis
    by (intro double_round_mono)
qed

lemma score_double_bound:
  assumes "0 < sev" and "double_round sev = sev" and "0 \<le> d"
  shows "double_round (sev / double_round (1 + d)) \<le> sev"
proof -
  have 1: "1 \<le> double_round (1 + d)"
    using assms(3) by (intro double_round_ge_one) simp
  have "sev / double_round (1 + d) \<le> sev / 1"
    using assms(1) 1 by (intro divide_left_mono) simp_all
  moreover have "0 < sev / double_round (1 + d)"
    using assms(1) 1 by simp
  ultimately have "double_round (sev / double_round (1 + d)) \<le> double_round (sev / 1)"
    by (intro double_round_mono)
  then show ?thesis
    using assms(2) by simp
qed

lemma score_double_zero: "double_round sev = sev \<Longrightarrow> score_double sev 0 = Inr sev"
  by (simp add: score_double_def double_round_one)

lemma score_double_absorb:
  assumes "0 \<le> d" and "d < 1 / 2 ^ 53"
  shows "score_double sev d = score_double sev 0"
  using double_round_absorb [OF assms]
  by (simp add: score_double_def double_round_one)

text \<open>In exact arithmetic the score is strictly decreasing in the distance.\<close>

lemma exact_score_strict:
  assumes "0 < s" and "0 \<le> d1" and "d1 < d2"
  shows "\<exists>s1 s2. exact_score s d1 = Inr s1 \<and> exact_score s d2 = Inr s2 \<and> s2 < s1"
proof -
  have "s / (1 + d2) < s / (1 + d1)"
    using assms by (intro divide_strict_left_mono) simp_all
  then show ?thesis
    using assms by (simp add: exact_score_def float_div_def)
qed

section \<open>Examples in doubles\<close>

text \<open>
  Along a meridian the distance is the radius times the difference of the latitudes in
  radians, so \<open>near_km\<close> is positive and below \<open>2 ^ - 53\<close>. The run on \<open>near_store\<close> is the same
  for every distance function that returns 0 for the resource at the place of the incident
  and a distance below \<open>2 ^ - 53\<close> for the other one.
\<close>

lemma haversine_km_meridian:
  assumes "0 \<le> x" and "x < 180"
  shows "haversine_km 0 0 x 0 = 6371 * radians x"
proof -
  define y where "y = radians x / 2"
  have y0: "0 \<le> y"
    using assms(1) by (simp add: y_def radians_def)
  have "x * (pi / 180) < 180 * (pi / 180)"
    using assms(2) by (intro mult_strict_right_mono) simp_all
  then have y1: "y < pi / 2"
    by (simp add: y_def radians_def)
  have s: "0 \<le> sin y"
    using y0 y1 by (intro sin_ge_zero) simp_all
  have c: "0 < cos y"
    using y0 y1 by (intro cos_gt_zero_pi) simp_all
  have a: "haversine_a 0 0 x 0 = (sin y)\<^sup>2"
    by (simp add: haversine_a_def y_def radians_def)
  have b: "1 - (sin y)\<^sup>2 = (cos y)\<^sup>2"
    by (simp add: cos_squared_eq)
  have "atan2 (sin y) (cos y) = arctan (tan y)"
    using c by (simp add: atan2_def tan_def)
  also have "\<dots> = y"
    using y0 y1 by (intro arctan_tan) simp_all
  finally have "atan2 (sin y) (cos y) = y" .
  then have "haversine_km 0 0 x 0 = 6371 * (2 * y)"
    using s c by (simp add: haversine_km_def a b)
  then show ?thesis
    by (simp add: y_def)
qed

lemma near_km_haversine: "haversine 0 0 (1 / 2 ^ 70) 0 = Inr near_km"
proof -
  have "(1::real) / 2 ^ 70 < 180"
    by simp
  then show ?thesis
    by (simp add: haversine_Inr haversine_km_meridian near_km_def)
qed

lemma near_km_bounds: "0 < near_km \<and> near_km < 1 / 2 ^ 53"
proof -
  have "near_km = 6371 * pi / 180 / 2 ^ 70"
    by (simp add: near_km_def radians_def)
  moreover have "6371 * pi / 180 / 2 ^ 70 < 6371 * 4 / 180 / 2 ^ (70::nat)"
    using pi_less_4 by (simp add: field_simps)
  moreover have "(6371::real) * 4 / 180 / 2 ^ 70 < 1 / 2 ^ 53"
    by simp
  moreover have "0 < 6371 * pi / 180 / 2 ^ (70::nat)"
    using pi_gt_zero by simp
  ultimately show ?thesis
    by linarith
qed

lemma py_round_small:
  assumes "0 \<le> x" and "x < 1 / 200"
  shows "py_round x 2 = 0"
proof -
  have "round_half_even (x * 100) = 0"
    using assms by (intro round_half_even_below_half) simp_all
  then show ?thesis
    by (simp add: py_round_def)
qed

lemma near_candidates:
  assumes zero: "hav 0 0 0 0 = Inr 0" and near: "hav 0 0 (1 / 2 ^ 70) 0 = Inr d"
    and d: "0 \<le> d" "d < 1 / 2 ^ 53"
  shows "score_candidates_fp hav score_double near_incident [2, 3] near_store =
     Inr [(10, 2, d), (10, 3, 0)]"
proof -
  have sd: "score_double 10 d = Inr 10"
    using score_double_absorb [OF d, of 10] by (simp add: score_double_zero double_round_ten)
  have s0: "score_double 10 0 = Inr 10"
    by (simp add: score_double_zero double_round_ten)
  have near': "hav 0 0 (1 / 1180591620717411303424) 0 = Inr d"
    using near by simp
  show ?thesis
    by (simp add: near_incident_def near_store_def example_incident_def zero near' sd s0)
qed

lemma near_run:
  assumes zero: "hav 0 0 0 0 = Inr 0" and near: "hav 0 0 (1 / 2 ^ 70) 0 = Inr d"
    and d: "0 \<le> d" "d < 1 / 2 ^ 53"
  shows "allocate_resources_fp hav score_double [near_incident] [2, 3] near_store =
     Inr ([\<lparr>incident_id = 7, resource_id = 2, units_assigned = 1, distance_km = 0\<rparr>,
           \<lparr>incident_id = 7, resource_id = 3, units_assigned = 1, distance_km = 0\<rparr>],
          near_final)"
proof -
  define s where "s = double_round (10 / 1)"
  have sd: "score_double 10 d = Inr s"
    using score_double_absorb [OF d, of 10] by (simp add: score_double_def double_round_one s_def)
  have s0: "score_double 10 0 = Inr s"
    by (simp add: score_double_def double_round_one s_def)
  have "(1::real) / 2 ^ 53 < 1 / 200"
    by simp
  then have r: "py_round d 2 = 0"
    using d by (intro py_round_small) simp_all
  have near': "hav 0 0 (1 / 1180591620717411303424) 0 = Inr d"
    using near by simp
  have cands: "score_candidates_fp hav score_double near_incident [2, 3] near_store =
      Inr [(s, 2, d), (s, 3, 0)]"
    by (simp add: near_incident_def near_store_def example_incident_def zero near' sd s0)
  have walk: "assign_loop near_incident 2 [(s, 2, d), (s, 3, 0)] near_store =
     ([\<lparr>incident_id = 7, resource_id = 2, units_assigned = 1, distance_km = 0\<rparr>,
       \<lparr>incident_id = 7, resource_id = 3, units_assigned = 1, distance_km = 0\<rparr>],
      near_final)"
    by (simp add: near_incident_def near_store_def near_final_def example_incident_def r
        py_round_zero fun_eq_iff)
  have dem: "demand near_incident = 2"
    by (simp add: near_incident_def)
  have srt: "sort_key (\<lambda>x. - fst x) [(s, 2 :: ref, d), (s, 3, 0)] = [(s, 2, d), (s, 3, 0)]"
    by simp
  have "allocate_incident_fp hav score_double near_incident [2, 3] near_store =
     Inr ([\<lparr>incident_id = 7, resource_id = 2, units_assigned = 1, distance_km = 0\<rparr>,
           \<lparr>incident_id = 7, resource_id = 3, units_assigned = 1, distance_km = 0\<rparr>],
          near_final)"
    by (simp only: allocate_incident_fp_def cands sum.case srt dem walk)
  then show ?thesis
    by (simp add: allocate_resources_fp_def incidents_sorted_def)
qed

lemma tie_run:
  "allocate_resources [tie_incident] [3, 2] tie_store =
     Inr ([\<lparr>incident_id = 7, resource_id = 3, units_assigned = 5, distance_km = 0\<rparr>,
           \<lparr>incident_id = 7, resource_id = 2, units_assigned = 1, distance_km = 0\<rparr>],
          tie_final)"
proof -
  have c: "sorted_candidates tie_incident [3, 2] tie_store = [(10, 3, 0), (10, 2, 0)]"
    by (simp add: sorted_candidates_def tie_store_def tie_incident_def example_store_def
        example_incident_def candidate_of_def haversine_km_same Let_def)
  have "assign_loop tie_incident 6 [(10, 3, 0), (10, 2, 0)] tie_store =
     ([\<lparr>incident_id = 7, resource_id = 3, units_assigned = 5, distance_km = 0\<rparr>,
       \<lparr>incident_id = 7, resource_id = 2, units_assigned = 1, distance_km = 0\<rparr>],
      tie_final)"
    by (simp add: tie_final_def tie_store_def tie_incident_def example_store_def
        example_incident_def py_round_zero fun_eq_iff)
  moreover have "demand tie_incident = 6"
    by (simp add: tie_incident_def)
  ultimately show ?thesis
    by (simp add: allocate_resources_def incidents_sorted_def allocate_incident_sorted c)
qed

section \<open>Score monotonicity\<close>

lemma haversine_nonneg: "haversine lat1 lon1 lat2 lon2 = Inr x \<Longrightarrow> 0 \<le> x"
  using haversine_km_nonneg [of lat1 lon1 lat2 lon2] by (simp add: haversine_Inr)

lemma score_double_rank:
  fixes cands :: "candidate list"
  assumes sev: "0 < sev"
    and scores: "\<forall>c\<in>set cands. 0 \<le> dist_of c \<and> score_double sev (dist_of c) = Inr (fst c)"
    and refs: "map ref_of cands = filter P resources"
    and p: "p < length cands" and q: "q < length cands"
    and less: "dist_of (sort_key (\<lambda>x. - fst x) cands ! p) < dist_of (sort_key (\<lambda>x. - fst x) cands ! q)"
  shows "p < q \<or>
     fst (sort_key (\<lambda>x. - fst x) cands ! p) = fst (sort_key (\<lambda>x. - fst x) cands ! q) \<and>
     (\<exists>us vs ws. resources =
        us @ ref_of (sort_key (\<lambda>x. - fst x) cands ! q) # vs @
          ref_of (sort_key (\<lambda>x. - fst x) cands ! p) # ws)"
proof (cases "p < q")
  case True
  then show ?thesis by simp
next
  case False
  let ?cs = "sort_key (\<lambda>x. - fst x) cands"
  have "p \<noteq> q"
    using less by auto
  then have qp: "q < p"
    using False by simp
  have mem: "?cs ! p \<in> set cands" "?cs ! q \<in> set cands"
    using p q nth_mem [of p ?cs] nth_mem [of q ?cs] by simp_all
  have dp: "0 \<le> dist_of (?cs ! p)" and dq: "0 \<le> dist_of (?cs ! q)"
    using scores mem by blast+
  have sp: "fst (?cs ! p) = double_round (sev / double_round (1 + dist_of (?cs ! p)))"
    using scores mem(1) score_double_Inr [OF dp, of sev] by auto
  have sq: "fst (?cs ! q) = double_round (sev / double_round (1 + dist_of (?cs ! q)))"
    using scores mem(2) score_double_Inr [OF dq, of sev] by auto
  have "fst (?cs ! q) \<le> fst (?cs ! p)"
    unfolding sp sq using sev dp less by (intro score_double_distance) simp_all
  moreover have "fst (?cs ! p) \<le> fst (?cs ! q)"
    using qp p by (rule by_score_descending)
  ultimately have eq: "fst (?cs ! q) = fst (?cs ! p)"
    by simp
  from by_score_ties [OF qp p eq refs]
  show ?thesis
    using eq by simp
qed

text \<open>
  C9, as the specification states it, fails in the arithmetic of doubles: the score of line
  79 is not strictly decreasing in the distance, and a farther resource can be served before a
  nearer one. The incident is at latitude 0 and longitude 0, with severity 10 and demand 2.
  Resource 3 is at the same place, resource 2 at latitude \<open>2 ^ - 70\<close> on the same meridian, at
  the distance \<open>near_km\<close>, which is positive and below \<open>2 ^ - 53\<close>. So \<^verbatim>\<open>1.0 + dist\<close> rounds to
  1, both scores are the same double, the stable sort keeps the order of the resources list,
  and the resource that is farther away is served first.
\<close>

theorem score_monotonicity_counterexample:
  "0 < severity near_incident \<and>
   haversine (inc_lat near_incident) (inc_lon near_incident)
     (res_lat (near_store 3)) (res_lon (near_store 3)) = Inr 0 \<and>
   haversine (inc_lat near_incident) (inc_lon near_incident)
     (res_lat (near_store 2)) (res_lon (near_store 2)) = Inr near_km \<and>
   0 < near_km \<and>
   score_double (severity near_incident) near_km = score_double (severity near_incident) 0 \<and>
   allocate_resources_fp haversine score_double [near_incident] [2, 3] near_store =
     Inr ([\<lparr>incident_id = 7, resource_id = 2, units_assigned = 1, distance_km = 0\<rparr>,
           \<lparr>incident_id = 7, resource_id = 3, units_assigned = 1, distance_km = 0\<rparr>],
          near_final)"
proof -
  have zero: "haversine 0 0 0 0 = Inr 0"
    by (simp add: haversine_Inr haversine_km_same)
  have b: "0 \<le> near_km" "near_km < 1 / 2 ^ 53" "0 < near_km"
    using near_km_bounds by simp_all
  have near: "haversine 0 0 (1 / 1180591620717411303424) 0 = Inr near_km"
    using near_km_haversine by simp
  have "score_double (severity near_incident) near_km = score_double (severity near_incident) 0"
    using b by (intro score_double_absorb) simp_all
  then show ?thesis
    using near_run [of haversine near_km, OF zero near_km_haversine b(1,2)] b(3)
    by (simp add: near_incident_def near_store_def example_incident_def zero near)
qed

text \<open>
  C9. Score monotonicity, in the arithmetic of doubles: \<open>score_double\<close> rounds the sum and the
  quotient of line 79 to the nearest double, and \<open>hav\<close> is any distance function whose
  distances are not negative. Let the run return, the incidents have pairwise different ids,
  and the severity of an incident of the input be positive and a double. The score is defined
  for every distance that is not negative; it is not larger at a larger distance, not smaller
  for a larger severity, at most the severity, and equal to the severity at distance 0. Every
  candidate of the incident carries its own distance and the score of that distance. In the
  sorted candidate list a candidate at a strictly smaller distance stands before one at a
  strictly larger distance, unless both have the same score and the farther one stands first
  in the resources list. The records that name the incident follow the sorted list from its
  start, one record for each candidate, up to its end or until the demand is met.
  \<open>allocate_resources\<close> is the same run at the exact distance and score.
\<close>

theorem score_monotonicity:
  assumes "allocate_resources_fp hav score_double incidents resources st = Inr (records, st')"
    and "distinct (map inc_id incidents)" and "inc \<in> set incidents"
    and "0 < severity inc" and "double_round (severity inc) = severity inc"
    and "\<forall>lat1 lon1 lat2 lon2 x. hav lat1 lon1 lat2 lon2 = Inr x \<longrightarrow> 0 \<le> x"
  shows "allocate_resources incidents resources st =
           allocate_resources_fp haversine exact_score incidents resources st \<and>
         (\<forall>d1 d2. 0 \<le> d1 \<and> d1 \<le> d2 \<longrightarrow>
            (\<exists>s1 s2. score_double (severity inc) d1 = Inr s1 \<and>
                     score_double (severity inc) d2 = Inr s2 \<and> s2 \<le> s1)) \<and>
         (\<forall>d sev. 0 \<le> d \<and> severity inc \<le> sev \<longrightarrow>
            (\<exists>s1 s2. score_double (severity inc) d = Inr s1 \<and>
                     score_double sev d = Inr s2 \<and> s1 \<le> s2)) \<and>
         (\<forall>d. 0 \<le> d \<longrightarrow>
            (\<exists>s. score_double (severity inc) d = Inr s \<and> s \<le> severity inc)) \<and>
         score_double (severity inc) 0 = Inr (severity inc) \<and>
         (\<exists>pre post recs_pre st_inc cands cs.
            incidents_sorted incidents = pre @ inc # post \<and>
            allocate_loop_fp hav score_double pre resources st = Inr (recs_pre, st_inc) \<and>
            score_candidates_fp hav score_double inc resources st_inc = Inr cands \<and>
            cs = sort_key (\<lambda>x. - fst x) cands \<and>
            (\<forall>c\<in>set cands.
               hav (inc_lat inc) (inc_lon inc) (res_lat (st (ref_of c))) (res_lon (st (ref_of c))) =
                 Inr (dist_of c) \<and>
               score_double (severity inc) (dist_of c) = Inr (fst c)) \<and>
            (\<forall>p q. p < length cs \<and> q < length cs \<and> dist_of (cs ! p) < dist_of (cs ! q) \<longrightarrow>
               p < q \<or>
               fst (cs ! p) = fst (cs ! q) \<and>
               (\<exists>us vs ws. resources = us @ ref_of (cs ! q) # vs @ ref_of (cs ! p) # ws)) \<and>
            map resource_id (records_of_incident (inc_id inc) records) =
              map (\<lambda>c. res_id (st (ref_of c)))
                (take (length (records_of_incident (inc_id inc) records)) cs) \<and>
            map distance_km (records_of_incident (inc_id inc) records) =
              map (\<lambda>c. py_round (dist_of c) 2)
                (take (length (records_of_incident (inc_id inc) records)) cs) \<and>
            (length (records_of_incident (inc_id inc) records) = length cs \<or>
             demand inc \<le> units_of_incident (inc_id inc) records))"
proof (intro conjI allI impI)
  show "allocate_resources incidents resources st =
      allocate_resources_fp haversine exact_score incidents resources st"
    by (simp add: allocate_resources_fp_exact)
next
  fix d1 d2 :: real
  assume a: "0 \<le> d1 \<and> d1 \<le> d2"
  then have "double_round (severity inc / double_round (1 + d2)) \<le>
      double_round (severity inc / double_round (1 + d1))"
    using assms(4) by (intro score_double_distance) simp_all
  then show "\<exists>s1 s2. score_double (severity inc) d1 = Inr s1 \<and>
      score_double (severity inc) d2 = Inr s2 \<and> s2 \<le> s1"
    using a by (simp add: score_double_Inr)
next
  fix d sev :: real
  assume a: "0 \<le> d \<and> severity inc \<le> sev"
  then have "double_round (severity inc / double_round (1 + d)) \<le>
      double_round (sev / double_round (1 + d))"
    using assms(4) by (intro score_double_severity) simp_all
  then show "\<exists>s1 s2. score_double (severity inc) d = Inr s1 \<and>
      score_double sev d = Inr s2 \<and> s1 \<le> s2"
    using a by (simp add: score_double_Inr)
next
  fix d :: real
  assume a: "0 \<le> d"
  then have "double_round (severity inc / double_round (1 + d)) \<le> severity inc"
    using assms(4,5) by (intro score_double_bound)
  then show "\<exists>s. score_double (severity inc) d = Inr s \<and> s \<le> severity inc"
    using a by (simp add: score_double_Inr)
next
  show "score_double (severity inc) 0 = Inr (severity inc)"
    using assms(5) by (rule score_double_zero)
next
  from assms(1-3) obtain pre post recs_pre st_inc cands where
    1: "incidents_sorted incidents = pre @ inc # post"
    and 2: "allocate_loop_fp hav score_double pre resources st = Inr (recs_pre, st_inc)"
    and 3: "score_candidates_fp hav score_double inc resources st_inc = Inr cands"
    and 4: "map ref_of cands = filter (\<lambda>r. 0 < capacity (st_inc r)) resources"
    and 5: "\<forall>c\<in>set cands.
       hav (inc_lat inc) (inc_lon inc) (res_lat (st (ref_of c))) (res_lon (st (ref_of c))) =
         Inr (dist_of c) \<and>
       score_double (severity inc) (dist_of c) = Inr (fst c)"
    and 6: "map resource_id (records_of_incident (inc_id inc) records) =
       map (\<lambda>c. res_id (st (ref_of c)))
         (take (length (records_of_incident (inc_id inc) records))
            (sort_key (\<lambda>x. - fst x) cands))"
    and 7: "map distance_km (records_of_incident (inc_id inc) records) =
       map (\<lambda>c. py_round (dist_of c) 2)
         (take (length (records_of_incident (inc_id inc) records))
            (sort_key (\<lambda>x. - fst x) cands))"
    and 8: "length (records_of_incident (inc_id inc) records) = length cands \<or>
     demand inc \<le> units_of_incident (inc_id inc) records"
    by (rule incident_walk)
  define cs where "cs = sort_key (\<lambda>x. - fst x) cands"
  have len: "length cs = length cands"
    by (simp add: cs_def)
  have scores: "\<forall>c\<in>set cands. 0 \<le> dist_of c \<and>
      score_double (severity inc) (dist_of c) = Inr (fst c)"
    using 5 assms(6) by blast
  show "\<exists>pre post recs_pre st_inc cands cs.
            incidents_sorted incidents = pre @ inc # post \<and>
            allocate_loop_fp hav score_double pre resources st = Inr (recs_pre, st_inc) \<and>
            score_candidates_fp hav score_double inc resources st_inc = Inr cands \<and>
            cs = sort_key (\<lambda>x. - fst x) cands \<and>
            (\<forall>c\<in>set cands.
               hav (inc_lat inc) (inc_lon inc) (res_lat (st (ref_of c))) (res_lon (st (ref_of c))) =
                 Inr (dist_of c) \<and>
               score_double (severity inc) (dist_of c) = Inr (fst c)) \<and>
            (\<forall>p q. p < length cs \<and> q < length cs \<and> dist_of (cs ! p) < dist_of (cs ! q) \<longrightarrow>
               p < q \<or>
               fst (cs ! p) = fst (cs ! q) \<and>
               (\<exists>us vs ws. resources = us @ ref_of (cs ! q) # vs @ ref_of (cs ! p) # ws)) \<and>
            map resource_id (records_of_incident (inc_id inc) records) =
              map (\<lambda>c. res_id (st (ref_of c)))
                (take (length (records_of_incident (inc_id inc) records)) cs) \<and>
            map distance_km (records_of_incident (inc_id inc) records) =
              map (\<lambda>c. py_round (dist_of c) 2)
                (take (length (records_of_incident (inc_id inc) records)) cs) \<and>
            (length (records_of_incident (inc_id inc) records) = length cs \<or>
             demand inc \<le> units_of_incident (inc_id inc) records)"
  proof (intro exI conjI)
    show "incidents_sorted incidents = pre @ inc # post"
      by (rule 1)
    show "allocate_loop_fp hav score_double pre resources st = Inr (recs_pre, st_inc)"
      by (rule 2)
    show "score_candidates_fp hav score_double inc resources st_inc = Inr cands"
      by (rule 3)
    show "cs = sort_key (\<lambda>x. - fst x) cands"
      by (rule cs_def)
    show "\<forall>c\<in>set cands.
       hav (inc_lat inc) (inc_lon inc) (res_lat (st (ref_of c))) (res_lon (st (ref_of c))) =
         Inr (dist_of c) \<and>
       score_double (severity inc) (dist_of c) = Inr (fst c)"
      by (rule 5)
    show "\<forall>p q. p < length cs \<and> q < length cs \<and> dist_of (cs ! p) < dist_of (cs ! q) \<longrightarrow>
        p < q \<or>
        fst (cs ! p) = fst (cs ! q) \<and>
        (\<exists>us vs ws. resources = us @ ref_of (cs ! q) # vs @ ref_of (cs ! p) # ws)"
    proof (intro allI impI)
      fix p q
      assume "p < length cs \<and> q < length cs \<and> dist_of (cs ! p) < dist_of (cs ! q)"
      then have "p < length cands" and "q < length cands"
        and "dist_of (sort_key (\<lambda>x. - fst x) cands ! p) <
             dist_of (sort_key (\<lambda>x. - fst x) cands ! q)"
        by (simp_all add: cs_def)
      from score_double_rank [OF assms(4) scores 4 this]
      show "p < q \<or>
        fst (cs ! p) = fst (cs ! q) \<and>
        (\<exists>us vs ws. resources = us @ ref_of (cs ! q) # vs @ ref_of (cs ! p) # ws)"
        unfolding cs_def .
    qed
    show "map resource_id (records_of_incident (inc_id inc) records) =
        map (\<lambda>c. res_id (st (ref_of c)))
          (take (length (records_of_incident (inc_id inc) records)) cs)"
      unfolding cs_def by (rule 6)
    show "map distance_km (records_of_incident (inc_id inc) records) =
        map (\<lambda>c. py_round (dist_of c) 2)
          (take (length (records_of_incident (inc_id inc) records)) cs)"
      unfolding cs_def by (rule 7)
    show "length (records_of_incident (inc_id inc) records) = length cs \<or>
        demand inc \<le> units_of_incident (inc_id inc) records"
      unfolding len by (rule 8)
  qed
qed

theorem score_monotonicity_witness:
  "allocate_resources_fp haversine score_double [near_incident] [2, 3] near_store =
     Inr ([\<lparr>incident_id = 7, resource_id = 2, units_assigned = 1, distance_km = 0\<rparr>,
           \<lparr>incident_id = 7, resource_id = 3, units_assigned = 1, distance_km = 0\<rparr>],
          near_final) \<and>
   distinct (map inc_id [near_incident]) \<and> near_incident \<in> set [near_incident] \<and>
   0 < severity near_incident \<and>
   double_round (severity near_incident) = severity near_incident \<and>
   (\<forall>lat1 lon1 lat2 lon2. \<exists>x. haversine lat1 lon1 lat2 lon2 = Inr x \<and> 0 \<le> x) \<and>
   (\<exists>s1 s2. score_double (severity near_incident) 0 = Inr s1 \<and>
      score_double (severity near_incident) near_km = Inr s2 \<and> s2 \<le> s1) \<and>
   score_double (severity near_incident) 0 = Inr 10 \<and>
   (\<exists>cands cs.
      score_candidates_fp haversine score_double near_incident [2, 3] near_store = Inr cands \<and>
      cs = sort_key (\<lambda>x. - fst x) cands \<and>
      map dist_of cs = [near_km, 0] \<and> map fst cs = [10, 10] \<and> map ref_of cs = [2, 3] \<and>
      dist_of (cs ! 1) < dist_of (cs ! 0) \<and>
      (\<exists>us vs ws. [2, 3] = us @ ref_of (cs ! 0) # vs @ ref_of (cs ! 1) # ws) \<and>
      map resource_id
        (records_of_incident 7
           [\<lparr>incident_id = 7, resource_id = 2, units_assigned = 1, distance_km = 0\<rparr>,
            \<lparr>incident_id = 7, resource_id = 3, units_assigned = 1, distance_km = 0\<rparr>]) =
        map (\<lambda>c. res_id (near_store (ref_of c))) cs)"
proof -
  let ?R = "[\<lparr>incident_id = 7, resource_id = 2, units_assigned = 1, distance_km = 0\<rparr>,
             \<lparr>incident_id = 7, resource_id = 3, units_assigned = 1, distance_km = 0\<rparr>]"
  have zero: "haversine 0 0 0 0 = Inr 0"
    by (simp add: haversine_Inr haversine_km_same)
  have b: "0 \<le> near_km" "near_km < 1 / 2 ^ 53" "0 < near_km"
    using near_km_bounds by simp_all
  have run: "allocate_resources_fp haversine score_double [near_incident] [2, 3] near_store =
      Inr (?R, near_final)"
    by (rule near_run [of haversine near_km, OF zero near_km_haversine b(1,2)])
  have h1: "distinct (map inc_id [near_incident])" and h2: "near_incident \<in> set [near_incident]"
    by simp_all
  have sev: "severity near_incident = 10" and id: "inc_id near_incident = 7"
    by (simp_all add: near_incident_def example_incident_def)
  have h3: "0 < severity near_incident"
    and h4: "double_round (severity near_incident) = severity near_incident"
    by (simp_all add: sev double_round_ten)
  have h5: "\<forall>lat1 lon1 lat2 lon2 x. haversine lat1 lon1 lat2 lon2 = Inr x \<longrightarrow> 0 \<le> x"
    using haversine_nonneg by blast
  have h5': "\<forall>lat1 lon1 lat2 lon2. \<exists>x. haversine lat1 lon1 lat2 lon2 = Inr x \<and> 0 \<le> x"
    by (simp add: haversine_Inr haversine_km_nonneg)
  note T = score_monotonicity [OF run h1 h2 h3 h4 h5]
  from T have "\<forall>d1 d2. 0 \<le> d1 \<and> d1 \<le> d2 \<longrightarrow>
      (\<exists>s1 s2. score_double (severity near_incident) d1 = Inr s1 \<and>
               score_double (severity near_incident) d2 = Inr s2 \<and> s2 \<le> s1)"
    by (elim conjE)
  from this [rule_format, of 0 near_km]
  have mono: "\<exists>s1 s2. score_double (severity near_incident) 0 = Inr s1 \<and>
      score_double (severity near_incident) near_km = Inr s2 \<and> s2 \<le> s1"
    using b(1) by simp
  from T have "score_double (severity near_incident) 0 = Inr (severity near_incident)"
    by (elim conjE)
  then have top: "score_double (severity near_incident) 0 = Inr 10"
    by (simp add: sev)
  from T have "\<exists>pre post recs_pre st_inc cands cs.
      incidents_sorted [near_incident] = pre @ near_incident # post \<and>
      allocate_loop_fp haversine score_double pre [2, 3] near_store = Inr (recs_pre, st_inc) \<and>
      score_candidates_fp haversine score_double near_incident [2, 3] st_inc = Inr cands \<and>
      cs = sort_key (\<lambda>x. - fst x) cands \<and>
      (\<forall>c\<in>set cands.
         haversine (inc_lat near_incident) (inc_lon near_incident)
           (res_lat (near_store (ref_of c))) (res_lon (near_store (ref_of c))) = Inr (dist_of c) \<and>
         score_double (severity near_incident) (dist_of c) = Inr (fst c)) \<and>
      (\<forall>p q. p < length cs \<and> q < length cs \<and> dist_of (cs ! p) < dist_of (cs ! q) \<longrightarrow>
         p < q \<or>
         fst (cs ! p) = fst (cs ! q) \<and>
         (\<exists>us vs ws. [2, 3] = us @ ref_of (cs ! q) # vs @ ref_of (cs ! p) # ws)) \<and>
      map resource_id (records_of_incident (inc_id near_incident) ?R) =
        map (\<lambda>c. res_id (near_store (ref_of c)))
          (take (length (records_of_incident (inc_id near_incident) ?R)) cs) \<and>
      map distance_km (records_of_incident (inc_id near_incident) ?R) =
        map (\<lambda>c. py_round (dist_of c) 2)
          (take (length (records_of_incident (inc_id near_incident) ?R)) cs) \<and>
      (length (records_of_incident (inc_id near_incident) ?R) = length cs \<or>
       demand near_incident \<le> units_of_incident (inc_id near_incident) ?R)"
    by (elim conjE)
  then obtain pre post recs_pre st_inc cands cs where
    1: "incidents_sorted [near_incident] = pre @ near_incident # post"
    and 2: "allocate_loop_fp haversine score_double pre [2, 3] near_store = Inr (recs_pre, st_inc)"
    and 3: "score_candidates_fp haversine score_double near_incident [2, 3] st_inc = Inr cands"
    and 4: "cs = sort_key (\<lambda>x. - fst x) cands"
    and 5: "\<forall>p q. p < length cs \<and> q < length cs \<and> dist_of (cs ! p) < dist_of (cs ! q) \<longrightarrow>
         p < q \<or>
         fst (cs ! p) = fst (cs ! q) \<and>
         (\<exists>us vs ws. [2, 3] = us @ ref_of (cs ! q) # vs @ ref_of (cs ! p) # ws)"
    and 6: "map resource_id (records_of_incident (inc_id near_incident) ?R) =
        map (\<lambda>c. res_id (near_store (ref_of c)))
          (take (length (records_of_incident (inc_id near_incident) ?R)) cs)"
    by (elim exE conjE) (rule that)
  have "pre = []"
    using 1 by (cases pre) (simp_all add: incidents_sorted_def)
  then have st_inc: "st_inc = near_store"
    using 2 by simp
  have cands: "cands = [(10, 2, near_km), (10, 3, 0)]"
    using 3 near_candidates [of haversine near_km, OF zero near_km_haversine b(1,2)]
    unfolding st_inc by simp
  have cs: "cs = [(10, 2, near_km), (10, 3, 0)]"
    unfolding 4 cands by simp
  have less: "dist_of (cs ! 1) < dist_of (cs ! 0)"
    using b(3) by (simp add: cs dist_of_def)
  have order: "\<exists>us vs ws. [2, 3] = us @ ref_of (cs ! 0) # vs @ ref_of (cs ! 1) # ws"
    using 5 [rule_format, of 1 0] less by (simp add: cs)
  have recs: "map resource_id (records_of_incident 7 ?R) =
      map (\<lambda>c. res_id (near_store (ref_of c))) cs"
    using 6 unfolding id by (simp add: cs records_of_incident_def)
  have c3: "score_candidates_fp haversine score_double near_incident [2, 3] near_store = Inr cands"
    using 3 unfolding st_inc .
  have v1: "map dist_of cs = [near_km, 0]" and v2: "map fst cs = [10, 10]"
    and v3: "map ref_of cs = [2, 3]"
    by (simp_all add: cs ref_of_def dist_of_def)
  have "score_candidates_fp haversine score_double near_incident [2, 3] near_store = Inr cands \<and>
      cs = sort_key (\<lambda>x. - fst x) cands \<and>
      map dist_of cs = [near_km, 0] \<and> map fst cs = [10, 10] \<and> map ref_of cs = [2, 3] \<and>
      dist_of (cs ! 1) < dist_of (cs ! 0) \<and>
      (\<exists>us vs ws. [2, 3] = us @ ref_of (cs ! 0) # vs @ ref_of (cs ! 1) # ws) \<and>
      map resource_id (records_of_incident 7 ?R) = map (\<lambda>c. res_id (near_store (ref_of c))) cs"
    by (intro conjI c3 4 v1 v2 v3 less order recs)
  then have "\<exists>cands cs.
      score_candidates_fp haversine score_double near_incident [2, 3] near_store = Inr cands \<and>
      cs = sort_key (\<lambda>x. - fst x) cands \<and>
      map dist_of cs = [near_km, 0] \<and> map fst cs = [10, 10] \<and> map ref_of cs = [2, 3] \<and>
      dist_of (cs ! 1) < dist_of (cs ! 0) \<and>
      (\<exists>us vs ws. [2, 3] = us @ ref_of (cs ! 0) # vs @ ref_of (cs ! 1) # ws) \<and>
      map resource_id (records_of_incident 7 ?R) = map (\<lambda>c. res_id (near_store (ref_of c))) cs"
    by (intro exI)
  then show ?thesis
    using run h1 h2 h3 h4 h5' mono top by simp
qed

section \<open>Candidate tie-break\<close>

text \<open>
  C10. Candidate tie-break. The statement holds for every way of computing the distance and the
  score (\<open>hav\<close>, \<open>score\<close>), so for the arithmetic of doubles as for the exact one;
  \<open>allocate_resources\<close> is the run at \<open>haversine\<close> and \<open>exact_score\<close>. Let the run return and
  the incidents have pairwise different ids. For every incident of the input, with \<open>st_inc\<close>
  the store when the loop reaches it: the candidates are the resources with capacity left, in
  the order of the resources list, each with its own distance and score. The list \<open>cs\<close> that
  the walk follows holds the same candidates, is descending in score, and keeps the candidates
  of every score in the order of the resources list: of two candidates with equal scores,
  the one that \<open>cs\<close> has first stands first in the resources list. There is only one such
  list, so the order in which the candidates are served is fixed by the two input lists. The
  records that name the incident are one for each candidate of a prefix of \<open>cs\<close>, in that
  order, and the prefix is all of \<open>cs\<close> unless the demand is met.
\<close>

theorem candidate_tie_break:
  assumes "allocate_resources_fp hav score incidents resources st = Inr (records, st')"
    and "distinct (map inc_id incidents)" and "inc \<in> set incidents"
  shows "allocate_resources incidents resources st =
           allocate_resources_fp haversine exact_score incidents resources st \<and>
         (\<exists>pre post recs_pre st_inc cands cs.
            incidents_sorted incidents = pre @ inc # post \<and>
            allocate_loop_fp hav score pre resources st = Inr (recs_pre, st_inc) \<and>
            score_candidates_fp hav score inc resources st_inc = Inr cands \<and>
            map ref_of cands = filter (\<lambda>r. 0 < capacity (st_inc r)) resources \<and>
            (\<forall>c\<in>set cands.
               hav (inc_lat inc) (inc_lon inc) (res_lat (st (ref_of c))) (res_lon (st (ref_of c))) =
                 Inr (dist_of c) \<and>
               score (severity inc) (dist_of c) = Inr (fst c)) \<and>
            mset cs = mset cands \<and>
            (\<forall>p q. p < q \<and> q < length cs \<longrightarrow> fst (cs ! q) \<le> fst (cs ! p)) \<and>
            (\<forall>s. filter (\<lambda>c. fst c = s) cs = filter (\<lambda>c. fst c = s) cands) \<and>
            (\<forall>p q. p < q \<and> q < length cs \<and> fst (cs ! p) = fst (cs ! q) \<longrightarrow>
               (\<exists>us vs ws. resources = us @ ref_of (cs ! p) # vs @ ref_of (cs ! q) # ws)) \<and>
            (\<forall>cs'. mset cs' = mset cands \<and>
               (\<forall>p q. p < q \<and> q < length cs' \<longrightarrow> fst (cs' ! q) \<le> fst (cs' ! p)) \<and>
               (\<forall>s. filter (\<lambda>c. fst c = s) cs' = filter (\<lambda>c. fst c = s) cands) \<longrightarrow>
               cs' = cs) \<and>
            map resource_id (records_of_incident (inc_id inc) records) =
              map (\<lambda>c. res_id (st (ref_of c)))
                (take (length (records_of_incident (inc_id inc) records)) cs) \<and>
            (length (records_of_incident (inc_id inc) records) = length cs \<or>
             demand inc \<le> units_of_incident (inc_id inc) records))"
proof
  show "allocate_resources incidents resources st =
      allocate_resources_fp haversine exact_score incidents resources st"
    by (simp add: allocate_resources_fp_exact)
next
  from assms obtain pre post recs_pre st_inc cands where
    1: "incidents_sorted incidents = pre @ inc # post"
    and 2: "allocate_loop_fp hav score pre resources st = Inr (recs_pre, st_inc)"
    and 3: "score_candidates_fp hav score inc resources st_inc = Inr cands"
    and 4: "map ref_of cands = filter (\<lambda>r. 0 < capacity (st_inc r)) resources"
    and 5: "\<forall>c\<in>set cands.
       hav (inc_lat inc) (inc_lon inc) (res_lat (st (ref_of c))) (res_lon (st (ref_of c))) =
         Inr (dist_of c) \<and>
       score (severity inc) (dist_of c) = Inr (fst c)"
    and 6: "map resource_id (records_of_incident (inc_id inc) records) =
       map (\<lambda>c. res_id (st (ref_of c)))
         (take (length (records_of_incident (inc_id inc) records))
            (sort_key (\<lambda>x. - fst x) cands))"
    and 7: "length (records_of_incident (inc_id inc) records) = length cands \<or>
     demand inc \<le> units_of_incident (inc_id inc) records"
    by (rule incident_walk)
  define cs where "cs = sort_key (\<lambda>x. - fst x) cands"
  have len: "length cs = length cands"
    by (simp add: cs_def)
  show "\<exists>pre post recs_pre st_inc cands cs.
            incidents_sorted incidents = pre @ inc # post \<and>
            allocate_loop_fp hav score pre resources st = Inr (recs_pre, st_inc) \<and>
            score_candidates_fp hav score inc resources st_inc = Inr cands \<and>
            map ref_of cands = filter (\<lambda>r. 0 < capacity (st_inc r)) resources \<and>
            (\<forall>c\<in>set cands.
               hav (inc_lat inc) (inc_lon inc) (res_lat (st (ref_of c))) (res_lon (st (ref_of c))) =
                 Inr (dist_of c) \<and>
               score (severity inc) (dist_of c) = Inr (fst c)) \<and>
            mset cs = mset cands \<and>
            (\<forall>p q. p < q \<and> q < length cs \<longrightarrow> fst (cs ! q) \<le> fst (cs ! p)) \<and>
            (\<forall>s. filter (\<lambda>c. fst c = s) cs = filter (\<lambda>c. fst c = s) cands) \<and>
            (\<forall>p q. p < q \<and> q < length cs \<and> fst (cs ! p) = fst (cs ! q) \<longrightarrow>
               (\<exists>us vs ws. resources = us @ ref_of (cs ! p) # vs @ ref_of (cs ! q) # ws)) \<and>
            (\<forall>cs'. mset cs' = mset cands \<and>
               (\<forall>p q. p < q \<and> q < length cs' \<longrightarrow> fst (cs' ! q) \<le> fst (cs' ! p)) \<and>
               (\<forall>s. filter (\<lambda>c. fst c = s) cs' = filter (\<lambda>c. fst c = s) cands) \<longrightarrow>
               cs' = cs) \<and>
            map resource_id (records_of_incident (inc_id inc) records) =
              map (\<lambda>c. res_id (st (ref_of c)))
                (take (length (records_of_incident (inc_id inc) records)) cs) \<and>
            (length (records_of_incident (inc_id inc) records) = length cs \<or>
             demand inc \<le> units_of_incident (inc_id inc) records)"
  proof (intro exI conjI)
    show "incidents_sorted incidents = pre @ inc # post"
      by (rule 1)
    show "allocate_loop_fp hav score pre resources st = Inr (recs_pre, st_inc)"
      by (rule 2)
    show "score_candidates_fp hav score inc resources st_inc = Inr cands"
      by (rule 3)
    show "map ref_of cands = filter (\<lambda>r. 0 < capacity (st_inc r)) resources"
      by (rule 4)
    show "\<forall>c\<in>set cands.
       hav (inc_lat inc) (inc_lon inc) (res_lat (st (ref_of c))) (res_lon (st (ref_of c))) =
         Inr (dist_of c) \<and>
       score (severity inc) (dist_of c) = Inr (fst c)"
      by (rule 5)
    show "mset cs = mset cands"
      by (simp add: cs_def)
    show "\<forall>p q. p < q \<and> q < length cs \<longrightarrow> fst (cs ! q) \<le> fst (cs ! p)"
    proof (intro allI impI)
      fix p q
      assume "p < q \<and> q < length cs"
      then show "fst (cs ! q) \<le> fst (cs ! p)"
        unfolding cs_def by (simp add: by_score_descending)
    qed
    show "\<forall>s. filter (\<lambda>c. fst c = s) cs = filter (\<lambda>c. fst c = s) cands"
      unfolding cs_def by (simp add: by_score_stable)
    show "\<forall>p q. p < q \<and> q < length cs \<and> fst (cs ! p) = fst (cs ! q) \<longrightarrow>
        (\<exists>us vs ws. resources = us @ ref_of (cs ! p) # vs @ ref_of (cs ! q) # ws)"
    proof (intro allI impI)
      fix p q
      assume "p < q \<and> q < length cs \<and> fst (cs ! p) = fst (cs ! q)"
      then have "p < q" and "q < length cands"
        and "fst (sort_key (\<lambda>x. - fst x) cands ! p) = fst (sort_key (\<lambda>x. - fst x) cands ! q)"
        by (simp_all add: cs_def)
      from by_score_ties [OF this 4]
      show "\<exists>us vs ws. resources = us @ ref_of (cs ! p) # vs @ ref_of (cs ! q) # ws"
        unfolding cs_def .
    qed
    show "\<forall>cs'. mset cs' = mset cands \<and>
        (\<forall>p q. p < q \<and> q < length cs' \<longrightarrow> fst (cs' ! q) \<le> fst (cs' ! p)) \<and>
        (\<forall>s. filter (\<lambda>c. fst c = s) cs' = filter (\<lambda>c. fst c = s) cands) \<longrightarrow> cs' = cs"
    proof (intro allI impI)
      fix cs'
      assume h: "mset cs' = mset cands \<and>
        (\<forall>p q. p < q \<and> q < length cs' \<longrightarrow> fst (cs' ! q) \<le> fst (cs' ! p)) \<and>
        (\<forall>s. filter (\<lambda>c. fst c = s) cs' = filter (\<lambda>c. fst c = s) cands)"
      show "cs' = cs"
        unfolding cs_def
        by (rule by_score_unique [OF conjunct1 [OF h] conjunct1 [OF conjunct2 [OF h]]
              conjunct2 [OF conjunct2 [OF h]]])
    qed
    show "map resource_id (records_of_incident (inc_id inc) records) =
        map (\<lambda>c. res_id (st (ref_of c)))
          (take (length (records_of_incident (inc_id inc) records)) cs)"
      unfolding cs_def by (rule 6)
    show "length (records_of_incident (inc_id inc) records) = length cs \<or>
        demand inc \<le> units_of_incident (inc_id inc) records"
      unfolding len by (rule 7)
  qed
qed

theorem candidate_tie_break_witness:
  "allocate_resources_fp haversine exact_score [tie_incident] [3, 2] tie_store =
     Inr ([\<lparr>incident_id = 7, resource_id = 3, units_assigned = 5, distance_km = 0\<rparr>,
           \<lparr>incident_id = 7, resource_id = 2, units_assigned = 1, distance_km = 0\<rparr>],
          tie_final) \<and>
   distinct (map inc_id [tie_incident]) \<and> tie_incident \<in> set [tie_incident] \<and>
   allocate_resources [tie_incident] [3, 2] tie_store =
     Inr ([\<lparr>incident_id = 7, resource_id = 3, units_assigned = 5, distance_km = 0\<rparr>,
           \<lparr>incident_id = 7, resource_id = 2, units_assigned = 1, distance_km = 0\<rparr>],
          tie_final) \<and>
   (\<exists>cands cs.
      score_candidates_fp haversine exact_score tie_incident [3, 2] tie_store = Inr cands \<and>
      map fst cands = [10, 10] \<and> map ref_of cands = [3, 2] \<and>
      mset cs = mset cands \<and> map ref_of cs = [3, 2] \<and>
      (\<exists>us vs ws. [3, 2] = us @ ref_of (cs ! 0) # vs @ ref_of (cs ! 1) # ws) \<and>
      map resource_id
        (records_of_incident 7
           [\<lparr>incident_id = 7, resource_id = 3, units_assigned = 5, distance_km = 0\<rparr>,
            \<lparr>incident_id = 7, resource_id = 2, units_assigned = 1, distance_km = 0\<rparr>]) =
        map (\<lambda>c. res_id (tie_store (ref_of c))) cs)"
proof -
  let ?R = "[\<lparr>incident_id = 7, resource_id = 3, units_assigned = 5, distance_km = 0\<rparr>,
             \<lparr>incident_id = 7, resource_id = 2, units_assigned = 1, distance_km = 0\<rparr>]"
  have run: "allocate_resources_fp haversine exact_score [tie_incident] [3, 2] tie_store =
      Inr (?R, tie_final)"
    by (simp only: allocate_resources_fp_exact tie_run)
  have h1: "distinct (map inc_id [tie_incident])" and h2: "tie_incident \<in> set [tie_incident]"
    by simp_all
  have id: "inc_id tie_incident = 7"
    by (simp add: tie_incident_def example_incident_def)
  have v: "score_candidates_fp haversine exact_score tie_incident [3, 2] tie_store =
      Inr [(10, 3, 0), (10, 2, 0)]"
    unfolding score_candidates_fp_exact score_candidates_eq
    by (simp add: tie_store_def tie_incident_def example_store_def example_incident_def
        candidate_of_def haversine_km_same Let_def)
  from candidate_tie_break [OF run h1 h2]
  have exact: "allocate_resources [tie_incident] [3, 2] tie_store =
      allocate_resources_fp haversine exact_score [tie_incident] [3, 2] tie_store"
    by (rule conjunct1)
  from conjunct2 [OF candidate_tie_break [OF run h1 h2]] obtain pre post recs_pre st_inc cands cs where
    1: "incidents_sorted [tie_incident] = pre @ tie_incident # post"
    and 2: "allocate_loop_fp haversine exact_score pre [3, 2] tie_store = Inr (recs_pre, st_inc)"
    and 3: "score_candidates_fp haversine exact_score tie_incident [3, 2] st_inc = Inr cands"
    and 4: "mset cs = mset cands"
    and 5: "\<forall>s. filter (\<lambda>c. fst c = s) cs = filter (\<lambda>c. fst c = s) cands"
    and 6: "\<forall>p q. p < q \<and> q < length cs \<and> fst (cs ! p) = fst (cs ! q) \<longrightarrow>
        (\<exists>us vs ws. [3, 2] = us @ ref_of (cs ! p) # vs @ ref_of (cs ! q) # ws)"
    and 7: "map resource_id (records_of_incident (inc_id tie_incident) ?R) =
        map (\<lambda>c. res_id (tie_store (ref_of c)))
          (take (length (records_of_incident (inc_id tie_incident) ?R)) cs)"
    by (elim exE conjE) (rule that)
  have "pre = []"
    using 1 by (cases pre) (simp_all add: incidents_sorted_def)
  then have "st_inc = tie_store"
    using 2 by simp
  then have cands: "cands = [(10, 3, 0), (10, 2, 0)]"
    using 3 v by simp
  have "set cs = set cands"
    using 4 by (rule mset_eq_setD)
  then have "\<forall>c\<in>set cs. fst c = 10"
    by (simp add: cands)
  then have "filter (\<lambda>c. fst c = 10) cs = cs"
    by (simp add: filter_id_conv)
  then have cs: "cs = [(10, 3, 0), (10, 2, 0)]"
    using 5 by (simp add: cands)
  have order: "\<exists>us vs ws. [3, 2] = us @ ref_of (cs ! 0) # vs @ ref_of (cs ! 1) # ws"
    using 6 [rule_format, of 0 1] by (simp add: cs)
  have recs: "map resource_id (records_of_incident 7 ?R) =
      map (\<lambda>c. res_id (tie_store (ref_of c))) cs"
    using 7 unfolding id by (simp add: cs records_of_incident_def)
  have "score_candidates_fp haversine exact_score tie_incident [3, 2] tie_store = Inr cands \<and>
      map fst cands = [10, 10] \<and> map ref_of cands = [3, 2] \<and>
      mset cs = mset cands \<and> map ref_of cs = [3, 2] \<and>
      (\<exists>us vs ws. [3, 2] = us @ ref_of (cs ! 0) # vs @ ref_of (cs ! 1) # ws) \<and>
      map resource_id (records_of_incident 7 ?R) = map (\<lambda>c. res_id (tie_store (ref_of c))) cs"
    using v order recs 4 by (simp add: cands cs ref_of_def)
  then have "\<exists>cands cs.
      score_candidates_fp haversine exact_score tie_incident [3, 2] tie_store = Inr cands \<and>
      map fst cands = [10, 10] \<and> map ref_of cands = [3, 2] \<and>
      mset cs = mset cands \<and> map ref_of cs = [3, 2] \<and>
      (\<exists>us vs ws. [3, 2] = us @ ref_of (cs ! 0) # vs @ ref_of (cs ! 1) # ws) \<and>
      map resource_id (records_of_incident 7 ?R) = map (\<lambda>c. res_id (tie_store (ref_of c))) cs"
    by (intro exI)
  then show ?thesis
    using run h1 h2 exact by simp
qed

end
